theory Spec2Isabelle
  imports Main "HOL-Library.Multiset"
begin

section \<open>Values and strings\<close>

text \<open>
  The cells of a row hold scalar values. Numbers are modelled by \<open>int\<close>: they stand for
  the integer-valued numbers below \<open>10^21\<close> in absolute value, which \<^verbatim>\<open>String\<close>
  prints in plain decimal digits; fractions and larger numbers are outside the model.
  Strings are lists of code units below 256. \<open>Undefined\<close> is what reading a missing
  property yields.
\<close>

datatype jsval = Undefined | Null | Bool bool | Num int | Str string

text \<open>Decimal digits of a natural number, most significant first.\<close>

fun digits :: "nat \<Rightarrow> string" where
  "digits n = (if n < 10 then [char_of (48 + n)]
               else digits (n div 10) @ [char_of (48 + n mod 10)])"

declare digits.simps [simp del]

text \<open>\<^verbatim>\<open>String(value)\<close>.\<close>

fun StringOf :: "jsval \<Rightarrow> string" where
  "StringOf Undefined = ''undefined''"
| "StringOf Null = ''null''"
| "StringOf (Bool b) = (if b then ''true'' else ''false'')"
| "StringOf (Num n) = (if n < 0 then CHR ''-'' # digits (nat (- n)) else digits (nat n))"
| "StringOf (Str s) = s"

text \<open>
  \<^verbatim>\<open>toLowerCase\<close> on code units below 256: A-Z and the capital letters U+00C0..U+00DE
  (without the multiplication sign U+00D7) move up by 32, every other unit stays.
\<close>

definition lower_char :: "char \<Rightarrow> char" where
  "lower_char c =
     (let n = (of_char c :: nat)
      in if (65 \<le> n \<and> n \<le> 90) \<or> (192 \<le> n \<and> n \<le> 222 \<and> n \<noteq> 215)
         then char_of (n + 32) else c)"

definition toLowerCase :: "string \<Rightarrow> string" where
  "toLowerCase s = map lower_char s"

text \<open>White space removed by \<^verbatim>\<open>trim\<close>, among the code units below 256.\<close>

definition is_ws :: "char \<Rightarrow> bool" where
  "is_ws c = ((of_char c :: nat) \<in> {9, 10, 11, 12, 13, 32, 160})"

definition trim :: "string \<Rightarrow> string" where
  "trim s = rev (dropWhile is_ws (rev (dropWhile is_ws s)))"

fun startsWith :: "string \<Rightarrow> string \<Rightarrow> bool" where
  "startsWith s [] = True"
| "startsWith [] (t # ts) = False"
| "startsWith (c # cs) (t # ts) = (c = t \<and> startsWith cs ts)"

text \<open>\<^verbatim>\<open>hay.includes(needle)\<close>: the needle starts at some position of the hay.\<close>

fun str_includes :: "string \<Rightarrow> string \<Rightarrow> bool" where
  "str_includes [] t = (t = [])"
| "str_includes (c # cs) t = (startsWith (c # cs) t \<or> str_includes cs t)"

definition endsWith :: "string \<Rightarrow> string \<Rightarrow> bool" where
  "endsWith s t = (length t \<le> length s \<and> drop (length s - length t) s = t)"

text \<open>The order of two strings by their code units.\<close>

fun str_lt :: "string \<Rightarrow> string \<Rightarrow> bool" where
  "str_lt [] [] = False"
| "str_lt [] (d # ds) = True"
| "str_lt (c # cs) [] = False"
| "str_lt (c # cs) (d # ds) =
     (if c = d then str_lt cs ds else (of_char c :: nat) < of_char d)"

section \<open>Row objects and the store\<close>

text \<open>
  A row object is the list of its own properties in enumeration order. Rows are compared
  by reference (\<^verbatim>\<open>===\<close>, \<^verbatim>\<open>includes\<close>), so the arrays hold references into a store
  of objects; \<open>nxt\<close> is the next reference never handed out. No handler writes into an
  existing object: every object literal allocates.
\<close>

type_synonym obj = "(string \<times> jsval) list"
type_synonym ref = nat

text \<open>\<^verbatim>\<open>o[k]\<close>: the value of property \<open>k\<close>, \<open>Undefined\<close> when there is none.\<close>

definition get_prop :: "obj \<Rightarrow> string \<Rightarrow> jsval" where
  "get_prop ob k = (case map_of ob k of None \<Rightarrow> Undefined | Some v \<Rightarrow> v)"

text \<open>
  An array index is the canonical decimal form of a number below \<open>2^32 - 1\<close>; two
  array indices compare as numbers when the shorter one, or of two of equal length the
  one that is less as a string, comes first. The own properties of an object are
  enumerated with the array indices first, in ascending order, and the other names after
  them in the order of their creation.
\<close>

definition index_less :: "string \<Rightarrow> string \<Rightarrow> bool" where
  "index_less a b = (length a < length b \<or> (length a = length b \<and> str_lt a b))"

definition is_array_index :: "string \<Rightarrow> bool" where
  "is_array_index k =
     (k \<noteq> [] \<and> list_all (\<lambda>c. 48 \<le> (of_char c :: nat) \<and> (of_char c :: nat) \<le> 57) k
      \<and> (k = ''0'' \<or> hd k \<noteq> CHR ''0'') \<and> index_less k ''4294967295'')"

fun replace_prop :: "obj \<Rightarrow> string \<Rightarrow> jsval \<Rightarrow> obj" where
  "replace_prop [] k v = []"
| "replace_prop ((k', v') # ps) k v =
     (if k' = k then (k, v) # ps else (k', v') # replace_prop ps k v)"

fun insert_index_prop :: "obj \<Rightarrow> string \<Rightarrow> jsval \<Rightarrow> obj" where
  "insert_index_prop [] k v = [(k, v)]"
| "insert_index_prop ((k', v') # ps) k v =
     (if is_array_index k' \<and> index_less k' k then (k', v') # insert_index_prop ps k v
      else (k, v) # (k', v') # ps)"

text \<open>
  Defining property \<open>k\<close> of an object: an existing property keeps its place and takes
  the new value; a new array index goes among the array indices, any other new name goes
  last. The names that \<^verbatim>\<open>Object.prototype\<close> defines are read from the prototype when a
  row has no own property of that name; such reads are outside this model.
\<close>

definition set_prop :: "obj \<Rightarrow> string \<Rightarrow> jsval \<Rightarrow> obj" where
  "set_prop ob k v =
     (if k \<in> set (map fst ob) then replace_prop ob k v
      else if is_array_index k then insert_index_prop ob k v
      else ob @ [(k, v)])"

definition Object_keys :: "obj \<Rightarrow> string list" where
  "Object_keys ob = map fst ob"

definition Object_values :: "obj \<Rightarrow> jsval list" where
  "Object_values ob = map snd ob"

section \<open>Component state\<close>

record column =
  key :: string
  label :: string
  ctype :: string

datatype direction = Asc | Desc

record sort_config =
  sort_key :: "string option"
  sort_direction :: direction

text \<open>
  The state of the component, one field per \<^verbatim>\<open>useState\<close>, together with the object
  store and the lines written by \<^verbatim>\<open>console.error\<close>. \<open>data\<close> holds row references;
  a slot of \<open>filteredData\<close> is \<open>None\<close> when it is empty or holds \<^verbatim>\<open>undefined\<close>
  (only an edit beyond the end of the array creates such slots). \<open>selectedRows\<close> is the
  \<^verbatim>\<open>Set\<close> of indices in insertion order.
\<close>

record state =
  data :: "ref list"
  columns :: "column list"
  filteredData :: "ref option list"
  searchTerm :: string
  sortConfig :: sort_config
  isUploading :: bool
  selectedRows :: "nat list"
  editingCell :: "(nat \<times> string) option"
  heap :: "ref \<Rightarrow> obj"
  nxt :: ref
  console :: "(string \<times> string) list"

definition init :: state where
  "init = \<lparr> data = [], columns = [], filteredData = [], searchTerm = [],
            sortConfig = \<lparr> sort_key = None, sort_direction = Asc \<rparr>,
            isUploading = False, selectedRows = [], editingCell = None,
            heap = (\<lambda>_. []), nxt = 0, console = [] \<rparr>"

section \<open>Search\<close>

definition row_matches :: "(ref \<Rightarrow> obj) \<Rightarrow> string \<Rightarrow> ref \<Rightarrow> bool" where
  "row_matches h tm row =
     list_ex (\<lambda>v. str_includes (toLowerCase (StringOf v)) (toLowerCase tm))
       (Object_values (h row))"

definition handleSearch :: "string \<Rightarrow> state \<Rightarrow> state" where
  "handleSearch tm s =
     (let s1 = s\<lparr>searchTerm := tm\<rparr>
      in if trim tm = [] then s1\<lparr>filteredData := map Some (data s)\<rparr>
         else s1\<lparr>filteredData := map Some (filter (row_matches (heap s) tm) (data s))\<rparr>)"

section \<open>Sort\<close>

text \<open>
  The relational operators. Two strings compare by code units; any other pair compares
  as numbers after \<^verbatim>\<open>ToNumber\<close>, and a comparison with \<^verbatim>\<open>NaN\<close> (\<open>None\<close>) is false.
  The numeric reading of a string, \<^verbatim>\<open>StringToNumber\<close>, is a parameter \<open>str2num\<close>.
\<close>

fun ToNumber :: "(string \<Rightarrow> int option) \<Rightarrow> jsval \<Rightarrow> int option" where
  "ToNumber str2num Undefined = None"
| "ToNumber str2num Null = Some 0"
| "ToNumber str2num (Bool b) = Some (if b then 1 else 0)"
| "ToNumber str2num (Num n) = Some n"
| "ToNumber str2num (Str x) = str2num x"

fun js_lt :: "(string \<Rightarrow> int option) \<Rightarrow> jsval \<Rightarrow> jsval \<Rightarrow> bool" where
  "js_lt str2num (Str x) (Str y) = str_lt x y"
| "js_lt str2num a b =
     (case ToNumber str2num a of
        None \<Rightarrow> False
      | Some x \<Rightarrow> (case ToNumber str2num b of None \<Rightarrow> False | Some y \<Rightarrow> x < y))"

text \<open>The comparator handed to \<^verbatim>\<open>sort\<close>; \<^verbatim>\<open>aVal > bVal\<close> is \<^verbatim>\<open>bVal < aVal\<close>.\<close>

definition compare_rows ::
  "(string \<Rightarrow> int option) \<Rightarrow> (ref \<Rightarrow> obj) \<Rightarrow> direction \<Rightarrow> string \<Rightarrow> ref \<Rightarrow> ref \<Rightarrow> int" where
  "compare_rows str2num h dir columnKey a b =
     (let aVal = get_prop (h a) columnKey; bVal = get_prop (h b) columnKey
      in if js_lt str2num aVal bVal then (if dir = Asc then - 1 else 1)
         else if js_lt str2num bVal aVal then (if dir = Asc then 1 else - 1)
         else 0)"

text \<open>
  \<^verbatim>\<open>Array.prototype.sort\<close> is stable; it is modelled by stable insertion: an element goes
  before the first element of the sorted rest that the comparator does not put before it.
  When the comparator is an ordering of the elements, this is the one order the language
  allows. When it is none (a column that mixes numbers with strings that are no numbers)
  the language leaves the order to the engine, and the order of the model need not be the
  engine's.
\<close>

fun insert_by :: "('a \<Rightarrow> 'a \<Rightarrow> int) \<Rightarrow> 'a \<Rightarrow> 'a list \<Rightarrow> 'a list" where
  "insert_by cmp x [] = [x]"
| "insert_by cmp x (y # ys) =
     (if cmp x y \<le> 0 then x # y # ys else y # insert_by cmp x ys)"

fun sort_by :: "('a \<Rightarrow> 'a \<Rightarrow> int) \<Rightarrow> 'a list \<Rightarrow> 'a list" where
  "sort_by cmp [] = []"
| "sort_by cmp (x # xs) = insert_by cmp x (sort_by cmp xs)"

text \<open>
  \<^verbatim>\<open>[...arr].sort(cmp)\<close>: the comparator sees the defined elements only; the
  \<^verbatim>\<open>undefined\<close> ones go last.
\<close>

definition defined_elems :: "'a option list \<Rightarrow> 'a list" where
  "defined_elems xs = concat (map (\<lambda>x. case x of None \<Rightarrow> [] | Some r \<Rightarrow> [r]) xs)"

definition array_sort :: "('a \<Rightarrow> 'a \<Rightarrow> int) \<Rightarrow> 'a option list \<Rightarrow> 'a option list" where
  "array_sort cmp xs =
     map Some (sort_by cmp (defined_elems xs))
     @ replicate (length xs - length (defined_elems xs)) None"

definition handleSort :: "(string \<Rightarrow> int option) \<Rightarrow> string \<Rightarrow> state \<Rightarrow> state" where
  "handleSort str2num columnKey s =
     (let dir = (if sort_key (sortConfig s) = Some columnKey
                    \<and> sort_direction (sortConfig s) = Asc then Desc else Asc);
          sorted = array_sort (compare_rows str2num (heap s) dir columnKey) (filteredData s)
      in s\<lparr>filteredData := sorted,
            sortConfig := \<lparr> sort_key = Some columnKey, sort_direction = dir \<rparr>\<rparr>)"

section \<open>Selection and cell editing\<close>

definition toggleRowSelection :: "nat \<Rightarrow> state \<Rightarrow> state" where
  "toggleRowSelection rowIndex s =
     (if rowIndex \<in> set (selectedRows s)
      then s\<lparr>selectedRows := removeAll rowIndex (selectedRows s)\<rparr>
      else s\<lparr>selectedRows := selectedRows s @ [rowIndex]\<rparr>)"

text \<open>\<^verbatim>\<open>arr[i]\<close>: \<^verbatim>\<open>undefined\<close> beyond the end.\<close>

definition array_at :: "'a option list \<Rightarrow> nat \<Rightarrow> 'a option" where
  "array_at xs i = (if i < length xs then xs ! i else None)"

text \<open>\<^verbatim>\<open>arr[i] = v\<close>: an index beyond the end extends the array, leaving empty slots.\<close>

definition array_set :: "'a option list \<Rightarrow> nat \<Rightarrow> 'a \<Rightarrow> 'a option list" where
  "array_set xs i v =
     (if i < length xs then xs[i := Some v]
      else xs @ replicate (i - length xs) None @ [Some v])"

text \<open>\<^verbatim>\<open>findIndex\<close>: the first index whose element satisfies \<open>P\<close>; \<open>None\<close> stands for -1.\<close>

fun findIndex :: "('a \<Rightarrow> bool) \<Rightarrow> 'a list \<Rightarrow> nat option" where
  "findIndex P [] = None"
| "findIndex P (x # xs) =
     (if P x then Some 0 else map_option Suc (findIndex P xs))"

text \<open>
  \<^verbatim>\<open>handleCellEdit\<close>. Two object literals are evaluated, so two objects are allocated:
  one for the copy of \<open>data\<close>, one for the copy of \<open>filteredData\<close>. When the projected
  row is not found in \<open>data\<close> the index is -1: the spread of \<^verbatim>\<open>newData[-1]\<close>
  (\<^verbatim>\<open>undefined\<close>) is the empty object, and the assignment \<^verbatim>\<open>newData[-1] = ...\<close> creates a
  property named "-1" on the copy, which is no element of the array: its elements and its
  length stay as they are.
\<close>

definition handleCellEdit :: "nat \<Rightarrow> string \<Rightarrow> jsval \<Rightarrow> state \<Rightarrow> state" where
  "handleCellEdit rowIndex columnKey newValue s =
     (let target = array_at (filteredData s) rowIndex;
          actualRowIndex = findIndex (\<lambda>row. Some row = target) (data s);
          r1 = nxt s;
          o1 = set_prop (case actualRowIndex of None \<Rightarrow> [] | Some i \<Rightarrow> heap s (data s ! i))
                 columnKey newValue;
          newData = (case actualRowIndex of None \<Rightarrow> data s | Some i \<Rightarrow> (data s)[i := r1]);
          r2 = Suc r1;
          o2 = set_prop (case target of None \<Rightarrow> [] | Some r \<Rightarrow> heap s r) columnKey newValue;
          newFilteredData = array_set (filteredData s) rowIndex r2
      in s\<lparr>data := newData, filteredData := newFilteredData, editingCell := None,
            heap := (heap s)(r1 := o1, r2 := o2), nxt := Suc r2\<rparr>)"

text \<open>A click on a cell that is not being edited makes it the cell being edited.\<close>

definition cell_click :: "nat \<Rightarrow> string \<Rightarrow> state \<Rightarrow> state" where
  "cell_click rowIndex columnKey s = s\<lparr>editingCell := Some (rowIndex, columnKey)\<rparr>"

text \<open>
  The events of the input element of the cell being edited: a change calls
  \<^verbatim>\<open>handleCellEdit\<close> with the text of the input, blur and the Enter key clear the
  edit cursor.
\<close>

datatype input_event = OnChange string | OnBlur | OnKeyPress string

fun cell_input :: "nat \<Rightarrow> string \<Rightarrow> input_event \<Rightarrow> state \<Rightarrow> state" where
  "cell_input rowIndex columnKey (OnChange v) s = handleCellEdit rowIndex columnKey (Str v) s"
| "cell_input rowIndex columnKey OnBlur s = s\<lparr>editingCell := None\<rparr>"
| "cell_input rowIndex columnKey (OnKeyPress k) s =
     (if k = ''Enter'' then s\<lparr>editingCell := None\<rparr> else s)"

section \<open>Adding and deleting rows\<close>

text \<open>
  \<^verbatim>\<open>newRow[col.key] = ''\<close> is an assignment: for the name \<^verbatim>\<open>__proto__\<close> it calls the
  setter of the prototype, which ignores a string, and creates no property.
\<close>

definition assign_prop :: "obj \<Rightarrow> string \<Rightarrow> jsval \<Rightarrow> obj" where
  "assign_prop ob k v = (if k = ''__proto__'' then ob else set_prop ob k v)"

definition addNewRow :: "state \<Rightarrow> state" where
  "addNewRow s =
     (let newRow = foldl (\<lambda>ob col. assign_prop ob (key col) (Str [])) [] (columns s);
          r = nxt s;
          newData = data s @ [r]
      in s\<lparr>data := newData, filteredData := map Some newData,
            heap := (heap s)(r := newRow), nxt := Suc r\<rparr>)"

definition deleteSelectedRows :: "state \<Rightarrow> state" where
  "deleteSelectedRows s =
     (let selectedIndices = selectedRows s;
          rowsToDelete = map (array_at (filteredData s)) selectedIndices;
          newData = filter (\<lambda>row. Some row \<notin> set rowsToDelete) (data s)
      in s\<lparr>data := newData, filteredData := map Some newData, selectedRows := []\<rparr>)"

definition resetDataGrid :: "state \<Rightarrow> state" where
  "resetDataGrid s =
     s\<lparr>data := [], columns := [], filteredData := [], searchTerm := [],
       sortConfig := \<lparr> sort_key = None, sort_direction = Asc \<rparr>,
       selectedRows := [], editingCell := None\<rparr>"

section \<open>Export\<close>

text \<open>
  The CSV serializer is the \<^verbatim>\<open>unparse\<close> function of the PapaParse library, called with
  an array and no configuration: fields are separated by a comma, records by
  carriage return and line feed, and the quote character is the double quote. The model
  follows the library's code for this call.
\<close>

definition quote_char :: char where
  "quote_char = CHR 0x22"

definition delimiter :: char where
  "delimiter = CHR '',''"

definition newline :: string where
  "newline = [CHR 0x0D, CHR 0x0A]"

text \<open>
  The library's \<^verbatim>\<open>safe\<close>: \<^verbatim>\<open>undefined\<close> and \<^verbatim>\<open>null\<close> give the empty text; any
  other value is turned into a string, its quote characters are doubled, and the result
  is put in quotes when it holds a carriage return, a line feed, a quote or the
  delimiter, or starts or ends with a space.
\<close>

definition escape_quotes :: "string \<Rightarrow> string" where
  "escape_quotes x = concat (map (\<lambda>c. if c = quote_char then [quote_char, quote_char] else [c]) x)"

definition needs_quotes :: "string \<Rightarrow> bool" where
  "needs_quotes e =
     (list_ex (\<lambda>c. c = CHR 0x0D \<or> c = CHR 0x0A \<or> c = quote_char) e \<or> delimiter \<in> set e \<or>
      (e \<noteq> [] \<and> hd e = CHR '' '') \<or> (e \<noteq> [] \<and> last e = CHR '' ''))"

definition quote_field :: "string \<Rightarrow> string" where
  "quote_field x =
     (let e = escape_quotes x
      in if needs_quotes e then quote_char # e @ [quote_char] else e)"

fun safe :: "jsval \<Rightarrow> string" where
  "safe Undefined = []"
| "safe Null = []"
| "safe v = quote_field (StringOf v)"

fun join :: "'a list \<Rightarrow> 'a list list \<Rightarrow> 'a list" where
  "join sep [] = []"
| "join sep [x] = x"
| "join sep (x # y # ys) = x @ sep @ join sep (y # ys)"

text \<open>
  The library's \<^verbatim>\<open>serialize\<close>. With a header, the header fields come first and each
  row gives the values of the header fields, read by name; a row without any property
  gets no delimiters. Without a header (the first row has no property) a row of objects
  gives nothing. A line break stands between the header and the rows and between two rows.
\<close>

definition row_line :: "string list \<Rightarrow> obj \<Rightarrow> string" where
  "row_line flds ob =
     (if Object_keys ob = [] then concat (map (\<lambda>k. safe (get_prop ob k)) flds)
      else join [delimiter] (map (\<lambda>k. safe (get_prop ob k)) flds))"

definition serialize :: "string list \<Rightarrow> obj list \<Rightarrow> string" where
  "serialize flds rows =
     (if flds \<noteq> []
      then join [delimiter] (map (\<lambda>k. safe (Str k)) flds)
           @ (if rows \<noteq> [] then newline else [])
           @ join newline (map (row_line flds) rows)
      else join newline (map (\<lambda>ob. []) rows))"

text \<open>
  \<^verbatim>\<open>Papa.unparse(input)\<close> for an array: the empty array gives the empty text; otherwise
  the header fields are the keys of the first element. An element that is
  \<^verbatim>\<open>undefined\<close> makes the call throw (\<open>None\<close>).
\<close>

definition papa_unparse :: "obj option list \<Rightarrow> string option" where
  "papa_unparse input =
     (if input = [] then Some []
      else if None \<in> set input then None
      else (let rows = defined_elems input
            in Some (serialize (Object_keys (hd rows)) rows)))"

text \<open>
  \<^verbatim>\<open>exportData\<close> hands \<open>filteredData\<close>, and nothing else, to the serializer and offers
  the text as a download; when the serializer throws there is no download. The state is
  not written.
\<close>

record download =
  download_name :: string
  mime :: string
  body :: string

definition exportData :: "state \<Rightarrow> download option" where
  "exportData s =
     (case papa_unparse (map (map_option (heap s)) (filteredData s)) of
        None \<Rightarrow> None
      | Some csv \<Rightarrow>
          Some \<lparr> download_name = ''data-export.csv'', mime = ''text/csv'', body = csv \<rparr>)"

section \<open>Upload\<close>

text \<open>
  The parsers are library code and enter as parameters. \<open>papa\<close> tells which callback the
  CSV parser invokes for a file. \<open>Complete results\<close> stands for \<^verbatim>\<open>complete\<close> with the
  results object: its \<^verbatim>\<open>data\<close> are the rows the parser read and its \<^verbatim>\<open>errors\<close> the
  errors it met in the text; the parser reports a malformed text this way, with the rows
  it could read. \<open>Failed e\<close> stands for \<^verbatim>\<open>error\<close>, which the parser invokes when the
  file cannot be read. \<open>json\<close> tells what
  \<^verbatim>\<open>JSON.parse\<close> does on the text of the file: it returns a document or throws. The
  documents covered are those whose rows are objects with scalar values: an array of such
  objects, or a single object.
\<close>

record upload_file =
  file_type :: string
  file_name :: string
  file_text :: string

record parse_results =
  results_data :: "obj list"
  results_errors :: "string list"

datatype csv_outcome = Complete parse_results | Failed string

datatype json_doc = JArray "obj list" | JObject obj

datatype json_outcome = Parsed json_doc | Threw string

text \<open>The parsed row objects enter the store, each under a reference of its own.\<close>

fun alloc_rows :: "obj list \<Rightarrow> (ref \<Rightarrow> obj) \<Rightarrow> ref \<Rightarrow> ref list \<times> (ref \<Rightarrow> obj) \<times> ref" where
  "alloc_rows [] h n = ([], h, n)"
| "alloc_rows (ob # obs) h n =
     (case alloc_rows obs (h(n := ob)) (Suc n) of (rs, h', n') \<Rightarrow> (n # rs, h', n'))"

definition load_rows :: "(string \<Rightarrow> string) \<Rightarrow> obj list \<Rightarrow> state \<Rightarrow> state" where
  "load_rows f rows s =
     (case rows of
        [] \<Rightarrow> s
      | first # _ \<Rightarrow>
          (let cols = map (\<lambda>k. \<lparr> key = f k, label = f k, ctype = ''text'' \<rparr>) (Object_keys first)
           in case alloc_rows rows (heap s) (nxt s) of
                (rs, h', n') \<Rightarrow>
                  s\<lparr>columns := cols, data := rs, filteredData := map Some rs,
                    heap := h', nxt := n'\<rparr>))"

definition handleFileUpload ::
  "(upload_file \<Rightarrow> csv_outcome) \<Rightarrow> (string \<Rightarrow> json_outcome) \<Rightarrow> upload_file option \<Rightarrow> state \<Rightarrow> state" where
  "handleFileUpload papa json fo s =
     (case fo of
        None \<Rightarrow> s
      | Some f \<Rightarrow>
          (let s1 = s\<lparr>isUploading := True\<rparr>
           in if file_type f = ''text/csv'' \<or> endsWith (file_name f) ''.csv'' then
                (case papa f of
                   Complete results \<Rightarrow>
                     (load_rows trim (results_data results) s1)\<lparr>isUploading := False\<rparr>
                 | Failed e \<Rightarrow>
                     s1\<lparr>console := console s1 @ [(''CSV parsing error:'', e)],
                        isUploading := False\<rparr>)
              else if file_type f = ''application/json'' then
                (case json (file_text f) of
                   Parsed doc \<Rightarrow>
                     (let arrayData = (case doc of JArray xs \<Rightarrow> xs | JObject ob \<Rightarrow> [ob])
                      in (load_rows (\<lambda>k. k) arrayData s1)\<lparr>isUploading := False\<rparr>)
                 | Threw e \<Rightarrow>
                     s1\<lparr>console := console s1 @ [(''JSON parsing error:'', e)],
                        isUploading := False\<rparr>)
              else s1))"

section \<open>Notions used in the statements\<close>

text \<open>
  \<open>t\<close> occurs in \<open>s\<close> as a case-insensitive substring: some segment of \<open>s\<close> equals
  \<open>t\<close> up to the case of its letters.
\<close>

definition ci_substring :: "string \<Rightarrow> string \<Rightarrow> bool" where
  "ci_substring t s =
     (\<exists>pre mid post. s = pre @ mid @ post \<and> map lower_char mid = map lower_char t)"

text \<open>
  Every reference held by the two arrays has been handed out by the store. The handlers
  keep this, and it is what makes a newly allocated object differ from every row in use.
\<close>

definition allocated :: "state \<Rightarrow> bool" where
  "allocated s =
     ((\<forall>r\<in>set (data s). r < nxt s) \<and> (\<forall>r\<in>set (defined_elems (filteredData s)). r < nxt s))"

text \<open>
  The values on which the relational operators form an ordering: the values that
  \<^verbatim>\<open>ToNumber\<close> maps to a number without reading a string, and the strings. A column is
  uniform when the projected rows hold values of one of the two kinds in it.
\<close>

fun is_numeric :: "jsval \<Rightarrow> bool" where
  "is_numeric Null = True"
| "is_numeric (Bool b) = True"
| "is_numeric (Num n) = True"
| "is_numeric v = False"

fun is_string :: "jsval \<Rightarrow> bool" where
  "is_string (Str x) = True"
| "is_string v = False"

definition column_uniform :: "state \<Rightarrow> string \<Rightarrow> bool" where
  "column_uniform s c =
     ((\<forall>r\<in>set (defined_elems (filteredData s)). is_numeric (get_prop (heap s r) c)) \<or>
      (\<forall>r\<in>set (defined_elems (filteredData s)). is_string (get_prop (heap s r) c)))"

text \<open>
  The rows \<open>rs\<close> are in order by column \<open>c\<close>: ascending when no later row is less than
  an earlier one, descending when no earlier row is less than a later one.
\<close>

definition in_order ::
  "(string \<Rightarrow> int option) \<Rightarrow> (ref \<Rightarrow> obj) \<Rightarrow> direction \<Rightarrow> string \<Rightarrow> ref list \<Rightarrow> bool" where
  "in_order str2num h dir c rs =
     sorted_wrt (\<lambda>a b. if dir = Asc
                        then \<not> js_lt str2num (get_prop (h b) c) (get_prop (h a) c)
                        else \<not> js_lt str2num (get_prop (h a) c) (get_prop (h b) c)) rs"

text \<open>
  Reading a CSV text: fields end at a comma and records at a carriage return followed by
  a line feed; a field that starts with a quote runs to its closing quote, and two quotes
  inside it stand for one. The scanner carries whether it is inside quotes, the field and
  the record read so far, both reversed. The empty text holds no record.
\<close>

fun scan_csv :: "bool \<Rightarrow> string \<Rightarrow> string list \<Rightarrow> string \<Rightarrow> string list list" where
  "scan_csv q f r [] = [rev (rev f # r)]"
| "scan_csv False f r (c # cs) =
     (if c = quote_char \<and> f = [] then scan_csv True [] r cs
      else if c = delimiter then scan_csv False [] (rev f # r) cs
      else (case cs of
              [] \<Rightarrow> scan_csv False (c # f) r cs
            | d # ds \<Rightarrow>
                if c = CHR 0x0D \<and> d = CHR 0x0A then rev (rev f # r) # scan_csv False [] [] ds
                else scan_csv False (c # f) r cs))"
| "scan_csv True f r (c # cs) =
     (if c = quote_char
      then (case cs of
              [] \<Rightarrow> scan_csv False f r cs
            | d # ds \<Rightarrow>
                if d = quote_char then scan_csv True (quote_char # f) r ds
                else scan_csv False f r cs)
      else scan_csv True (c # f) r cs)"

definition csv_records :: "string \<Rightarrow> string list list" where
  "csv_records t = (if t = [] then [] else scan_csv False [] [] t)"

text \<open>
  The text of a cell in the export, and the cells of a row under the header \<open>flds\<close>:
  a row without any property is an empty line, which reads as one empty field.
\<close>

definition cell_text :: "jsval \<Rightarrow> string" where
  "cell_text v = (case v of Undefined \<Rightarrow> [] | Null \<Rightarrow> [] | _ \<Rightarrow> StringOf v)"

definition row_cells :: "string list \<Rightarrow> obj \<Rightarrow> string list" where
  "row_cells flds ob =
     (if Object_keys ob = [] then [[]] else map (\<lambda>k. cell_text (get_prop ob k)) flds)"

section \<open>A running example\<close>

text \<open>
  The upload of a CSV file with the header \<^verbatim>\<open>name,age\<close> and three records, as the
  parser delivers it with dynamic typing, followed by a search for \<^verbatim>\<open>ali\<close>.
\<close>

definition alice :: obj where
  "alice = [(''name'', Str ''Alice''), (''age'', Num 30)]"

definition bob :: obj where
  "bob = [(''name'', Str ''Bob''), (''age'', Num 25)]"

definition carol :: obj where
  "carol = [(''name'', Str ''Carol''), (''age'', Num 41)]"

definition ex_file :: upload_file where
  "ex_file = \<lparr> file_type = ''text/csv'', file_name = ''people.csv'', file_text = [] \<rparr>"

definition ex_papa :: "upload_file \<Rightarrow> csv_outcome" where
  "ex_papa f = Complete \<lparr> results_data = [alice, bob, carol], results_errors = [] \<rparr>"

definition ex_json :: "string \<Rightarrow> json_outcome" where
  "ex_json x = Threw ''SyntaxError''"

definition ex_str2num :: "string \<Rightarrow> int option" where
  "ex_str2num x = None"

definition ex_loaded :: state where
  "ex_loaded = handleFileUpload ex_papa ex_json (Some ex_file) init"

definition ex_filtered :: state where
  "ex_filtered = handleSearch ''ali'' ex_loaded"

text \<open>
  From the filtered state: a click on the age cell of the visible row, an edit of that
  cell, and the selection of the visible row. From the loaded state: two clicks on the
  age header, and a search that matches no row.
\<close>

definition ex_editing :: state where
  "ex_editing = cell_click 0 ''age'' ex_filtered"

definition ex_edited :: state where
  "ex_edited = handleCellEdit 0 ''age'' (Str ''3'') ex_filtered"

definition ex_selected :: state where
  "ex_selected = toggleRowSelection 0 ex_filtered"

definition ex_desc :: state where
  "ex_desc = handleSort ex_str2num ''age'' (handleSort ex_str2num ''age'' ex_loaded)"

definition ex_unmatched :: state where
  "ex_unmatched = handleSearch ''zzz'' ex_loaded"

text \<open>
  A CSV file whose last record lacks a field. The parser calls \<^verbatim>\<open>complete\<close> with
  both rows and reports the short record among the errors. A CSV read that ends in the
  error callback, and a file with a truncated JSON text.
\<close>

definition ex_short_file :: upload_file where
  "ex_short_file =
     \<lparr> file_type = ''text/csv'', file_name = ''short.csv'',
       file_text = ''name,age'' @ [CHR 0x0A] @ ''Alice,30'' @ [CHR 0x0A] @ ''Bob'' \<rparr>"

definition ex_short_papa :: "upload_file \<Rightarrow> csv_outcome" where
  "ex_short_papa f =
     Complete \<lparr> results_data = [alice, [(''name'', Str ''Bob'')]],
                results_errors = [''TooFewFields''] \<rparr>"

definition ex_bad_csv :: "upload_file \<Rightarrow> csv_outcome" where
  "ex_bad_csv f = Failed ''NotReadableError''"

definition ex_json_file :: upload_file where
  "ex_json_file = \<lparr> file_type = ''application/json'', file_name = ''people.json'',
                    file_text = ''[{'' \<rparr>"

section \<open>The running example, evaluated\<close>

lemma ex_loaded_data: "data ex_loaded = [0, 1, 2]"
  by code_simp

lemma ex_loaded_filteredData: "filteredData ex_loaded = [Some 0, Some 1, Some 2]"
  by code_simp

lemma ex_loaded_heap:
  "heap ex_loaded 0 = alice" "heap ex_loaded 1 = bob" "heap ex_loaded 2 = carol"
  by code_simp+

lemma ex_loaded_nxt: "nxt ex_loaded = 3"
  by code_simp

lemma ex_loaded_columns: "map key (columns ex_loaded) = [''name'', ''age'']"
  by code_simp

lemma ex_loaded_rest:
  "selectedRows ex_loaded = []" "editingCell ex_loaded = None" "searchTerm ex_loaded = []"
  "sortConfig ex_loaded = \<lparr> sort_key = None, sort_direction = Asc \<rparr>"
  by code_simp+

lemma ex_matches:
  "row_matches (heap ex_loaded) ''ali'' 0"
  "\<not> row_matches (heap ex_loaded) ''ali'' 1"
  "\<not> row_matches (heap ex_loaded) ''ali'' 2"
  by code_simp+

lemma ex_filtered_filteredData: "filteredData ex_filtered = [Some 0]"
  by code_simp

lemma ex_filtered_rest:
  "data ex_filtered = [0, 1, 2]" "nxt ex_filtered = 3"
  "searchTerm ex_filtered = ''ali''"
  "selectedRows ex_filtered = []"
  "sortConfig ex_filtered = \<lparr> sort_key = None, sort_direction = Asc \<rparr>"
  by code_simp+

lemma ex_filtered_heap: "heap ex_filtered = heap ex_loaded"
  by (simp add: ex_filtered_def handleSearch_def Let_def)

section \<open>Search: the projection after a change of the search term\<close>

lemma dropWhile_all_iff: "(\<forall>x\<in>set (dropWhile P xs). P x) \<longleftrightarrow> (\<forall>x\<in>set xs. P x)"
proof
  assume a: "\<forall>x\<in>set (dropWhile P xs). P x"
  have "dropWhile P xs = []"
  proof (rule ccontr)
    assume n: "dropWhile P xs \<noteq> []"
    then have "\<not> P (hd (dropWhile P xs))" by (rule hd_dropWhile)
    moreover have "hd (dropWhile P xs) \<in> set (dropWhile P xs)" using n by simp
    ultimately show False using a by blast
  qed
  then show "\<forall>x\<in>set xs. P x" by (simp only: dropWhile_eq_Nil_conv)
next
  assume "\<forall>x\<in>set xs. P x"
  then show "\<forall>x\<in>set (dropWhile P xs). P x" by (meson set_dropWhileD)
qed

lemma trim_empty_iff: "trim t = [] \<longleftrightarrow> (\<forall>c\<in>set t. is_ws c)"
proof -
  have "trim t = [] \<longleftrightarrow> (\<forall>x\<in>set (dropWhile is_ws t). is_ws x)"
    by (simp add: trim_def)
  then show ?thesis by (simp only: dropWhile_all_iff)
qed

lemma startsWith_iff: "startsWith s t \<longleftrightarrow> (\<exists>post. s = t @ post)"
  by (induction s t rule: startsWith.induct) auto

lemma str_includes_iff: "str_includes s t \<longleftrightarrow> (\<exists>pre post. s = pre @ t @ post)"
proof (induction s)
  case Nil
  then show ?case by auto
next
  case (Cons c cs)
  show ?case
  proof
    assume "str_includes (c # cs) t"
    then consider "startsWith (c # cs) t" | "str_includes cs t" by auto
    then show "\<exists>pre post. c # cs = pre @ t @ post"
    proof cases
      case 1
      then obtain post where "c # cs = t @ post" by (auto simp: startsWith_iff)
      then have "c # cs = [] @ t @ post" by simp
      then show ?thesis by blast
    next
      case 2
      then obtain pre post where "cs = pre @ t @ post" using Cons.IH by blast
      then have "c # cs = (c # pre) @ t @ post" by simp
      then show ?thesis by blast
    qed
  next
    assume "\<exists>pre post. c # cs = pre @ t @ post"
    then obtain pre post where e: "c # cs = pre @ t @ post" by blast
    show "str_includes (c # cs) t"
    proof (cases pre)
      case Nil
      then have "startsWith (c # cs) t" using e by (auto simp: startsWith_iff)
      then show ?thesis by simp
    next
      case (Cons p ps)
      then have "cs = ps @ t @ post" using e by simp
      then have "str_includes cs t" using Cons.IH by blast
      then show ?thesis by simp
    qed
  qed
qed

lemma includes_lower_iff:
  "str_includes (toLowerCase s) (toLowerCase t) \<longleftrightarrow> ci_substring t s"
proof
  assume "str_includes (toLowerCase s) (toLowerCase t)"
  then obtain pre post where "map lower_char s = pre @ map lower_char t @ post"
    by (auto simp: str_includes_iff toLowerCase_def)
  then have "\<exists>a r. s = a @ r \<and> pre = map lower_char a \<and> map lower_char t @ post = map lower_char r"
    by (simp only: map_eq_append_conv)
  then obtain a r where 1: "s = a @ r" "map lower_char r = map lower_char t @ post"
    by metis
  then have "\<exists>b c. r = b @ c \<and> map lower_char t = map lower_char b \<and> post = map lower_char c"
    by (simp only: map_eq_append_conv)
  then obtain b c where 2: "r = b @ c" "map lower_char b = map lower_char t"
    by metis
  have "s = a @ b @ c" using 1 2 by simp
  then show "ci_substring t s" unfolding ci_substring_def using 2 by blast
next
  assume "ci_substring t s"
  then obtain pre mid post where "s = pre @ mid @ post" "map lower_char mid = map lower_char t"
    unfolding ci_substring_def by blast
  then have "map lower_char s = map lower_char pre @ map lower_char t @ map lower_char post"
    by simp
  then show "str_includes (toLowerCase s) (toLowerCase t)"
    unfolding str_includes_iff toLowerCase_def by blast
qed

lemma row_matches_iff:
  "row_matches h t = (\<lambda>row. \<exists>v\<in>set (Object_values (h row)). ci_substring t (StringOf v))"
  by (rule ext) (simp add: row_matches_def list_ex_iff includes_lower_iff)

text \<open>
  Claim C4. For every dataset and search term \<open>t\<close>: when \<open>t\<close> is empty or consists of
  white space only, the projection is the whole dataset; otherwise it consists of exactly
  the rows of the dataset, in dataset order, that have a field value whose string
  representation contains \<open>t\<close> as a case-insensitive substring.
\<close>

theorem handleSearch_projection:
  "filteredData (handleSearch t s) =
     (if (\<forall>c\<in>set t. is_ws c) then map Some (data s)
      else map Some
             (filter (\<lambda>row. \<exists>v\<in>set (Object_values (heap s row)). ci_substring t (StringOf v))
                (data s)))"
  by (simp add: handleSearch_def Let_def trim_empty_iff row_matches_iff)

theorem handleSearch_projection_witness:
  "filteredData (handleSearch ''ali'' ex_loaded) = [Some 0] \<and>
   filter (\<lambda>row. \<exists>v\<in>set (Object_values (heap ex_loaded row)). ci_substring ''ali'' (StringOf v))
     (data ex_loaded) = [0] \<and>
   filteredData (handleSearch ''  '' ex_loaded) = map Some (data ex_loaded)"
proof -
  have "\<not> is_ws CHR ''a''" by code_simp
  then have ws1: "\<not> (\<forall>c\<in>set ''ali''. is_ws c)" by simp
  have "is_ws CHR '' ''" by code_simp
  then have ws2: "\<forall>c\<in>set ''  ''. is_ws c" by simp
  have ev: "filteredData (handleSearch ''ali'' ex_loaded) = [Some 0]"
    using ex_filtered_filteredData by (simp add: ex_filtered_def)
  have "map Some (filter (\<lambda>row. \<exists>v\<in>set (Object_values (heap ex_loaded row)).
            ci_substring ''ali'' (StringOf v)) (data ex_loaded)) = map Some [0]"
    using handleSearch_projection [of "''ali''" ex_loaded] ev by (simp only: if_not_P [OF ws1] list.map)
  then have "filter (\<lambda>row. \<exists>v\<in>set (Object_values (heap ex_loaded row)).
            ci_substring ''ali'' (StringOf v)) (data ex_loaded) = [0]"
    by (simp only: inj_map_eq_map [OF inj_Some])
  moreover have "filteredData (handleSearch ''  '' ex_loaded) = map Some (data ex_loaded)"
    using handleSearch_projection [of "''  ''" ex_loaded] by (simp only: if_P [OF ws2])
  ultimately show ?thesis using ev by simp
qed

section \<open>What sorting and searching leave alone\<close>

text \<open>
  Claim C9. A sort click and a change of the search term leave the canonical dataset (its
  rows, their order and their contents), the column schema and the selection as they are:
  the selected indices are neither dropped nor remapped when the projection changes.
\<close>

theorem sort_search_frame:
  "data (handleSort str2num c s) = data s \<and> columns (handleSort str2num c s) = columns s \<and>
   selectedRows (handleSort str2num c s) = selectedRows s \<and>
   heap (handleSort str2num c s) = heap s \<and>
   data (handleSearch t s) = data s \<and> columns (handleSearch t s) = columns s \<and>
   selectedRows (handleSearch t s) = selectedRows s \<and> heap (handleSearch t s) = heap s"
  by (simp add: handleSort_def handleSearch_def Let_def)

theorem sort_search_frame_witness:
  "data (handleSort ex_str2num ''age'' ex_loaded) = [0, 1, 2] \<and>
   filteredData (handleSort ex_str2num ''age'' ex_loaded) = [Some 1, Some 0, Some 2] \<and>
   data (handleSearch ''ali'' ex_loaded) = [0, 1, 2] \<and>
   filteredData (handleSearch ''ali'' ex_loaded) = [Some 0]"
proof -
  have "filteredData (handleSort ex_str2num ''age'' ex_loaded) = [Some 1, Some 0, Some 2]"
    by code_simp
  moreover have "filteredData (handleSearch ''ali'' ex_loaded) = [Some 0]"
    using ex_filtered_filteredData by (simp add: ex_filtered_def)
  ultimately show ?thesis
    using sort_search_frame [of ex_str2num "''age''" ex_loaded "''ali''"] ex_loaded_data
    by simp
qed

section \<open>The edit cursor\<close>

text \<open>
  Claim C10. Every call of \<^verbatim>\<open>handleCellEdit\<close>, and so every change event of the input
  of the cell being edited, sets the edit cursor to null.
\<close>

theorem commit_exits_edit:
  "editingCell (handleCellEdit r c V s) = None \<and>
   editingCell (cell_input r c (OnChange v) s) = None"
  by (simp add: handleCellEdit_def Let_def)

theorem commit_exits_edit_witness:
  "editingCell ex_editing = Some (0, ''age'') \<and>
   editingCell (cell_input 0 ''age'' (OnChange ''3'') ex_editing) = None"
  using commit_exits_edit [of 0 "''age''" "Str ''3''" ex_editing "''3''"]
  by (simp add: ex_editing_def cell_click_def)

section \<open>Committing a cell edit\<close>

lemma findIndex_Some:
  "findIndex P xs = Some i \<Longrightarrow> i < length xs \<and> P (xs ! i) \<and> (\<forall>j<i. \<not> P (xs ! j))"
proof (induction xs arbitrary: i)
  case Nil
  then show ?case by simp
next
  case (Cons x xs)
  show ?case
  proof (cases "P x")
    case True
    then show ?thesis using Cons.prems by simp
  next
    case False
    then obtain k where k: "findIndex P xs = Some k" "i = Suc k"
      using Cons.prems by auto
    then have "k < length xs \<and> P (xs ! k) \<and> (\<forall>j<k. \<not> P (xs ! j))"
      using Cons.IH by blast
    then show ?thesis using False k by (auto simp: less_Suc_eq_0_disj)
  qed
qed

lemma findIndex_None: "findIndex P xs = None \<longleftrightarrow> (\<forall>x\<in>set xs. \<not> P x)"
  by (induction xs) auto

lemma map_of_replace_prop:
  "k \<in> set (map fst ob) \<Longrightarrow> map_of (replace_prop ob k v) k = Some v"
  by (induction ob k v rule: replace_prop.induct) auto

lemma map_of_insert_index_prop:
  "k \<notin> set (map fst ob) \<Longrightarrow> map_of (insert_index_prop ob k v) k = Some v"
  by (induction ob k v rule: insert_index_prop.induct) auto

lemma map_of_append_new:
  "k \<notin> set (map fst ob) \<Longrightarrow> map_of (ob @ [(k, v)]) k = Some v"
  by (induction ob) auto

lemma get_prop_set_prop: "get_prop (set_prop ob k v) k = v"
proof (cases "k \<in> set (map fst ob)")
  case True
  then show ?thesis by (simp add: get_prop_def set_prop_def map_of_replace_prop)
next
  case False
  show ?thesis
  proof (cases "is_array_index k")
    case True
    then have "set_prop ob k v = insert_index_prop ob k v"
      using False by (simp add: set_prop_def)
    then show ?thesis
      using map_of_insert_index_prop [OF False, of v] by (simp only: get_prop_def option.case)
  next
    case no: False
    then have "set_prop ob k v = ob @ [(k, v)]" using False by (simp add: set_prop_def)
    then show ?thesis
      using map_of_append_new [OF False, of v] by (simp only: get_prop_def option.case)
  qed
qed

lemma array_set_nth: "array_set xs i v ! i = Some v"
  by (simp add: array_set_def nth_append)

lemma array_set_length: "i < length (array_set xs i v)"
  by (simp add: array_set_def)

lemma array_set_other: "j < length xs \<Longrightarrow> j \<noteq> i \<Longrightarrow> array_set xs i v ! j = xs ! j"
  by (simp add: array_set_def nth_append)

lemma defined_elems_mem: "r \<in> set (defined_elems xs) \<longleftrightarrow> Some r \<in> set xs"
  by (induction xs) (auto simp: defined_elems_def split: option.splits)

lemma ex_filtered_allocated: "allocated ex_filtered"
  by (simp add: allocated_def ex_filtered_rest ex_filtered_filteredData defined_elems_def)

lemma ex_edited_vals: "data ex_edited = [3, 1, 2]" "filteredData ex_edited = [Some 4]" "nxt ex_edited = 5"
  by code_simp+

lemma ex_edited_allocated: "allocated ex_edited"
  by (simp add: allocated_def ex_edited_vals defined_elems_def)

text \<open>
  Claim C3. Let the projected row at index \<open>r\<close> be one of the rows of the canonical
  dataset, found there at index \<open>i\<close>. After \<^verbatim>\<open>handleCellEdit r c V\<close> the canonical row
  at \<open>i\<close> and the projected row at \<open>r\<close> both read \<open>V\<close> in column \<open>c\<close>; both are
  objects allocated by this call, copies of the edited row with column \<open>c\<close> set, and no
  object that existed before, the edited row among them, has been written.
\<close>

theorem handleCellEdit_shared:
  assumes al: "allocated s"
    and r: "r < length (filteredData s)"
    and row: "filteredData s ! r = Some row"
    and mem: "row \<in> set (data s)"
  shows "\<exists>i<length (data s). data s ! i = row \<and>
           data (handleCellEdit r c V s) = (data s)[i := nxt s] \<and>
           filteredData (handleCellEdit r c V s) = (filteredData s)[r := Some (Suc (nxt s))] \<and>
           heap (handleCellEdit r c V s) (nxt s) = set_prop (heap s row) c V \<and>
           heap (handleCellEdit r c V s) (Suc (nxt s)) = set_prop (heap s row) c V \<and>
           get_prop (heap (handleCellEdit r c V s) (nxt s)) c = V \<and>
           get_prop (heap (handleCellEdit r c V s) (Suc (nxt s))) c = V \<and>
           row < nxt s \<and> heap (handleCellEdit r c V s) row = heap s row \<and>
           (\<forall>p<nxt s. heap (handleCellEdit r c V s) p = heap s p)"
proof -
  have tgt: "array_at (filteredData s) r = Some row"
    using r row by (simp add: array_at_def)
  have "findIndex (\<lambda>x. Some x = Some row) (data s) \<noteq> None"
    using mem by (simp add: findIndex_None)
  then obtain i where i: "findIndex (\<lambda>x. Some x = Some row) (data s) = Some i"
    by blast
  then have ip: "i < length (data s)" "data s ! i = row"
    using findIndex_Some [OF i] by auto
  have lt: "row < nxt s" using al mem by (simp add: allocated_def)
  have d: "data (handleCellEdit r c V s) = (data s)[i := nxt s]"
    using tgt i by (simp add: handleCellEdit_def Let_def)
  have f: "filteredData (handleCellEdit r c V s) = (filteredData s)[r := Some (Suc (nxt s))]"
    using r by (simp add: handleCellEdit_def Let_def array_set_def)
  have h: "heap (handleCellEdit r c V s)
             = (heap s)(nxt s := set_prop (heap s row) c V,
                        Suc (nxt s) := set_prop (heap s row) c V)"
    using tgt i ip by (simp add: handleCellEdit_def Let_def)
  have g1: "get_prop (heap (handleCellEdit r c V s) (nxt s)) c = V"
    by (simp add: h get_prop_set_prop)
  have g2: "get_prop (heap (handleCellEdit r c V s) (Suc (nxt s))) c = V"
    by (simp add: h get_prop_set_prop)
  have old: "\<forall>p<nxt s. heap (handleCellEdit r c V s) p = heap s p"
    by (simp add: h)
  have h1: "heap (handleCellEdit r c V s) (nxt s) = set_prop (heap s row) c V"
    by (simp add: h)
  have h2: "heap (handleCellEdit r c V s) (Suc (nxt s)) = set_prop (heap s row) c V"
    by (simp add: h)
  show ?thesis using ip d f h1 h2 g1 g2 lt old by blast
qed

theorem handleCellEdit_shared_witness:
  "filteredData ex_filtered ! 0 = Some 0 \<and> data ex_filtered ! 0 = 0 \<and>
   get_prop (heap ex_filtered 0) ''age'' = Num 30 \<and>
   data (handleCellEdit 0 ''age'' (Str ''3'') ex_filtered) = [3, 1, 2] \<and>
   filteredData (handleCellEdit 0 ''age'' (Str ''3'') ex_filtered) = [Some 4] \<and>
   get_prop (heap (handleCellEdit 0 ''age'' (Str ''3'') ex_filtered) 3) ''age'' = Str ''3'' \<and>
   get_prop (heap (handleCellEdit 0 ''age'' (Str ''3'') ex_filtered) 4) ''age'' = Str ''3'' \<and>
   get_prop (heap (handleCellEdit 0 ''age'' (Str ''3'') ex_filtered) 0) ''age'' = Num 30"
proof -
  have a: "filteredData ex_filtered ! 0 = Some 0" "(0::nat) < length (filteredData ex_filtered)"
    "(0::nat) \<in> set (data ex_filtered)"
    by (simp_all add: ex_filtered_filteredData ex_filtered_rest)
  have g: "get_prop (heap ex_filtered 0) ''age'' = Num 30"
    by (simp add: ex_filtered_heap ex_loaded_heap alice_def get_prop_def)
  obtain i where i: "i < length (data ex_filtered)" "data ex_filtered ! i = 0"
    "data (handleCellEdit 0 ''age'' (Str ''3'') ex_filtered) = (data ex_filtered)[i := nxt ex_filtered]"
    "filteredData (handleCellEdit 0 ''age'' (Str ''3'') ex_filtered)
       = (filteredData ex_filtered)[0 := Some (Suc (nxt ex_filtered))]"
    "get_prop (heap (handleCellEdit 0 ''age'' (Str ''3'') ex_filtered) (nxt ex_filtered)) ''age'' = Str ''3''"
    "get_prop (heap (handleCellEdit 0 ''age'' (Str ''3'') ex_filtered) (Suc (nxt ex_filtered))) ''age'' = Str ''3''"
    "heap (handleCellEdit 0 ''age'' (Str ''3'') ex_filtered) 0 = heap ex_filtered 0"
    using handleCellEdit_shared [OF ex_filtered_allocated a(2) a(1) a(3), of "''age''" "Str ''3''"]
    by blast
  have "i = 0" using i(1,2) by (auto simp: ex_filtered_rest nth_Cons split: nat.splits)
  then show ?thesis using a g i by (simp add: ex_filtered_rest ex_filtered_filteredData)
qed

text \<open>
  The two objects of one edit are distinct, so after an edit of a shared row the projected
  row is no longer a row of the canonical dataset.
\<close>

lemma handleCellEdit_unshares:
  assumes "allocated s" and "r < length (filteredData s)"
    and "filteredData s ! r = Some row" and "row \<in> set (data s)"
  shows "\<forall>x\<in>set (data (handleCellEdit r c V s)).
           array_at (filteredData (handleCellEdit r c V s)) r \<noteq> Some x"
proof -
  have tgt: "array_at (filteredData s) r = Some row"
    using assms by (simp add: array_at_def)
  have "findIndex (\<lambda>x. Some x = Some row) (data s) \<noteq> None"
    using assms by (simp add: findIndex_None)
  then obtain i where i: "findIndex (\<lambda>x. Some x = Some row) (data s) = Some i"
    by blast
  have d: "data (handleCellEdit r c V s) = (data s)[i := nxt s]"
    using tgt i by (simp add: handleCellEdit_def Let_def)
  have f: "array_at (filteredData (handleCellEdit r c V s)) r = Some (Suc (nxt s))"
    using assms by (simp add: handleCellEdit_def Let_def array_set_def array_at_def)
  have "\<forall>x\<in>set ((data s)[i := nxt s]). x \<le> nxt s"
  proof
    fix x assume "x \<in> set ((data s)[i := nxt s])"
    then have "x \<in> insert (nxt s) (set (data s))"
      using set_update_subset_insert by fastforce
    then show "x \<le> nxt s" using assms(1) by (auto simp: allocated_def)
  qed
  then show ?thesis using d f by auto
qed

text \<open>
  Claim C7. When the projected row at index \<open>r\<close> is not a row of the canonical dataset,
  \<^verbatim>\<open>handleCellEdit r c V\<close> returns normally (the handler has no failing path), the
  canonical array and the contents of each of its rows are as before, and the projected
  row at \<open>r\<close> is a new object that reads \<open>V\<close> in column \<open>c\<close>.
\<close>

theorem handleCellEdit_unshared:
  assumes al: "allocated s"
    and nf: "\<forall>row\<in>set (data s). array_at (filteredData s) r \<noteq> Some row"
  shows "data (handleCellEdit r c V s) = data s \<and>
         (\<forall>row\<in>set (data s). heap (handleCellEdit r c V s) row = heap s row) \<and>
         r < length (filteredData (handleCellEdit r c V s)) \<and>
         filteredData (handleCellEdit r c V s) ! r = Some (Suc (nxt s)) \<and>
         get_prop (heap (handleCellEdit r c V s) (Suc (nxt s))) c = V"
proof -
  have i: "findIndex (\<lambda>x. Some x = array_at (filteredData s) r) (data s) = None"
    using nf by (auto simp: findIndex_None)
  have d: "data (handleCellEdit r c V s) = data s"
    using i by (simp add: handleCellEdit_def Let_def)
  have h: "\<forall>p<nxt s. heap (handleCellEdit r c V s) p = heap s p"
    by (simp add: handleCellEdit_def Let_def)
  have rows: "\<forall>row\<in>set (data s). heap (handleCellEdit r c V s) row = heap s row"
    using al h by (simp add: allocated_def)
  have f: "filteredData (handleCellEdit r c V s) = array_set (filteredData s) r (Suc (nxt s))"
    by (simp add: handleCellEdit_def Let_def)
  have g: "get_prop (heap (handleCellEdit r c V s) (Suc (nxt s))) c = V"
    by (simp add: handleCellEdit_def Let_def get_prop_set_prop)
  show ?thesis using d rows g by (simp add: f array_set_nth array_set_length)
qed

theorem handleCellEdit_unshared_witness:
  "data ex_edited = [3, 1, 2] \<and> filteredData ex_edited = [Some 4] \<and>
   data (handleCellEdit 0 ''age'' (Str ''31'') ex_edited) = [3, 1, 2] \<and>
   heap (handleCellEdit 0 ''age'' (Str ''31'') ex_edited) 3 = heap ex_edited 3 \<and>
   filteredData (handleCellEdit 0 ''age'' (Str ''31'') ex_edited) ! 0 = Some 6 \<and>
   get_prop (heap (handleCellEdit 0 ''age'' (Str ''31'') ex_edited) 6) ''age'' = Str ''31''"
proof -
  have nf: "\<forall>row\<in>set (data ex_edited). array_at (filteredData ex_edited) 0 \<noteq> Some row"
    by (simp add: ex_edited_vals array_at_def)
  show ?thesis
    using handleCellEdit_unshared [OF ex_edited_allocated nf, of "''age''" "Str ''31''"]
    by (simp add: ex_edited_vals)
qed

section \<open>Deleting the selected rows\<close>

lemma ex_selected_vals: "selectedRows ex_selected = [0]" "data ex_selected = [0, 1, 2]"
  "filteredData ex_selected = [Some 0]"
  by code_simp+

text \<open>
  Claim C5. When every selected index is an index of the projection,
  \<^verbatim>\<open>deleteSelectedRows\<close> removes from the canonical dataset exactly the rows that stand
  in the projection at a selected index, keeps every other row in its order, and leaves
  the selection empty.
\<close>

theorem deleteSelectedRows_exact:
  assumes "\<forall>i\<in>set (selectedRows s). i < length (filteredData s)"
  shows "data (deleteSelectedRows s)
           = filter (\<lambda>row. \<forall>i\<in>set (selectedRows s). filteredData s ! i \<noteq> Some row) (data s) \<and>
         selectedRows (deleteSelectedRows s) = []"
proof -
  have "\<And>row. (Some row \<notin> set (map (array_at (filteredData s)) (selectedRows s)))
          = (\<forall>i\<in>set (selectedRows s). filteredData s ! i \<noteq> Some row)"
  proof -
    fix row
    have "map (array_at (filteredData s)) (selectedRows s) = map ((!) (filteredData s)) (selectedRows s)"
      using assms by (simp add: array_at_def)
    then show "(Some row \<notin> set (map (array_at (filteredData s)) (selectedRows s)))
          = (\<forall>i\<in>set (selectedRows s). filteredData s ! i \<noteq> Some row)"
      by (simp only: set_map) (metis (no_types, lifting) image_iff)
  qed
  then show ?thesis by (simp add: deleteSelectedRows_def Let_def)
qed

theorem deleteSelectedRows_exact_witness:
  "selectedRows ex_selected = [0] \<and> filteredData ex_selected = [Some 0] \<and>
   data ex_selected = [0, 1, 2] \<and>
   data (deleteSelectedRows ex_selected) = [1, 2] \<and>
   selectedRows (deleteSelectedRows ex_selected) = []"
proof -
  have v: "\<forall>i\<in>set (selectedRows ex_selected). i < length (filteredData ex_selected)"
    by (simp add: ex_selected_vals)
  show ?thesis using deleteSelectedRows_exact [OF v] by (simp add: ex_selected_vals)
qed

section \<open>The projection after adding and deleting rows\<close>

text \<open>
  Claim C2, as stated, fails: \<^verbatim>\<open>addNewRow\<close> shows every row although the search term
  \<^verbatim>\<open>ali\<close> stays active and the second row does not match it; applying the search to
  the new dataset would show one row.
\<close>

theorem addNewRow_ignores_search:
  "searchTerm (addNewRow ex_filtered) = ''ali'' \<and>
   filteredData (addNewRow ex_filtered) = [Some 0, Some 1, Some 2, Some 3] \<and>
   \<not> row_matches (heap (addNewRow ex_filtered)) ''ali'' 1 \<and>
   filteredData (handleSearch (searchTerm (addNewRow ex_filtered)) (addNewRow ex_filtered)) = [Some 0] \<and>
   filteredData (addNewRow ex_filtered)
     \<noteq> filteredData (handleSearch (searchTerm (addNewRow ex_filtered)) (addNewRow ex_filtered))"
  by code_simp


text \<open>
  Claim C2, amended. After \<^verbatim>\<open>addNewRow\<close> and after \<^verbatim>\<open>deleteSelectedRows\<close> the
  projection is the whole new canonical dataset in canonical order: neither the search
  filter nor the sort is applied again, while the search term and the sort configuration
  keep their values. \<^verbatim>\<open>addNewRow\<close> appends one newly allocated row.
\<close>

theorem mutation_resets_projection:
  "filteredData (addNewRow s) = map Some (data (addNewRow s)) \<and>
   data (addNewRow s) = data s @ [nxt s] \<and>
   searchTerm (addNewRow s) = searchTerm s \<and> sortConfig (addNewRow s) = sortConfig s \<and>
   filteredData (deleteSelectedRows s) = map Some (data (deleteSelectedRows s)) \<and>
   searchTerm (deleteSelectedRows s) = searchTerm s \<and>
   sortConfig (deleteSelectedRows s) = sortConfig s"
  by (simp add: addNewRow_def deleteSelectedRows_def Let_def)


theorem mutation_resets_projection_witness:
  "data (addNewRow ex_filtered) = [0, 1, 2, 3] \<and>
   filteredData (addNewRow ex_filtered) = [Some 0, Some 1, Some 2, Some 3] \<and>
   searchTerm (addNewRow ex_filtered) = ''ali''"
  using mutation_resets_projection [of ex_filtered]
  by (simp add: ex_filtered_rest)

section \<open>Sort clicks\<close>

lemma str_lt_irrefl: "\<not> str_lt a a"
  by (induction a) auto

lemma str_lt_asym: "str_lt a b \<Longrightarrow> \<not> str_lt b a"
  by (induction a b rule: str_lt.induct) (auto split: if_splits)

lemma str_lt_trans: "str_lt a b \<Longrightarrow> str_lt b c \<Longrightarrow> str_lt a c"
proof (induction a b arbitrary: c rule: str_lt.induct)
  case 1
  then show ?case by simp
next
  case (2 d ds)
  then show ?case by (cases c) auto
next
  case (3 c cs)
  then show ?case by simp
next
  case (4 x xs y ys)
  then obtain z zs where c: "c = z # zs" by (cases c) auto
  show ?case using 4 unfolding c by (auto split: if_splits)
qed

lemma str_lt_total: "a = b \<or> str_lt a b \<or> str_lt b a"
proof (induction a b rule: str_lt.induct)
  case (4 c cs d ds)
  show ?case
  proof (cases "c = d")
    case True
    then show ?thesis using 4 by auto
  next
    case False
    then have "(of_char c :: nat) \<noteq> of_char d" by simp
    then have "(of_char c :: nat) < of_char d \<or> (of_char d :: nat) < of_char c" by linarith
    then show ?thesis using False by auto
  qed
qed auto

lemma str_lt_negtrans: "\<not> str_lt b a \<Longrightarrow> \<not> str_lt c b \<Longrightarrow> \<not> str_lt c a"
proof -
  assume 1: "\<not> str_lt b a" and 2: "\<not> str_lt c b"
  have ab: "a = b \<or> str_lt a b" using 1 str_lt_total [of a b] by blast
  have bc: "b = c \<or> str_lt b c" using 2 str_lt_total [of b c] by blast
  have "a = c \<or> str_lt a c" using ab bc str_lt_trans by blast
  then show "\<not> str_lt c a" using str_lt_irrefl str_lt_asym by blast
qed

lemma js_lt_numeric:
  "is_numeric a \<Longrightarrow> is_numeric b \<Longrightarrow>
     js_lt p a b = (the (ToNumber p a) < the (ToNumber p b))"
  by (cases a; cases b) auto

lemma js_lt_asym:
  assumes "(is_numeric a \<and> is_numeric b) \<or> (is_string a \<and> is_string b)"
  shows "js_lt p a b \<Longrightarrow> \<not> js_lt p b a"
  using assms
proof
  assume "is_numeric a \<and> is_numeric b"
  then show "js_lt p a b \<Longrightarrow> \<not> js_lt p b a" by (simp add: js_lt_numeric)
next
  assume "is_string a \<and> is_string b"
  then obtain x y where "a = Str x" "b = Str y" by (cases a; cases b) auto
  then show "js_lt p a b \<Longrightarrow> \<not> js_lt p b a" by (simp add: str_lt_asym)
qed

lemma js_lt_negtrans:
  assumes "(is_numeric a \<and> is_numeric b \<and> is_numeric c) \<or> (is_string a \<and> is_string b \<and> is_string c)"
  shows "\<not> js_lt p b a \<Longrightarrow> \<not> js_lt p c b \<Longrightarrow> \<not> js_lt p c a"
  using assms
proof
  assume "is_numeric a \<and> is_numeric b \<and> is_numeric c"
  then show "\<not> js_lt p b a \<Longrightarrow> \<not> js_lt p c b \<Longrightarrow> \<not> js_lt p c a"
    by (simp add: js_lt_numeric)
next
  assume "is_string a \<and> is_string b \<and> is_string c"
  then obtain x y z where "a = Str x" "b = Str y" "c = Str z"
    by (cases a; cases b; cases c) auto
  then show "\<not> js_lt p b a \<Longrightarrow> \<not> js_lt p c b \<Longrightarrow> \<not> js_lt p c a"
    using str_lt_negtrans by simp
qed

lemma mset_insert_by: "mset (insert_by cmp x ys) = add_mset x (mset ys)"
  by (induction ys) auto

lemma mset_sort_by: "mset (sort_by cmp xs) = mset xs"
  by (induction xs) (auto simp: mset_insert_by)

lemma set_sort_by: "set (sort_by cmp xs) = set xs"
  using mset_sort_by [of cmp xs] by (metis set_mset_mset)

lemma set_insert_by: "set (insert_by cmp x ys) = insert x (set ys)"
  using mset_insert_by [of cmp x ys] by (metis set_mset_mset set_mset_add_mset_insert)

lemma sorted_wrt_insert_by:
  assumes tot: "\<And>a b. a \<in> S \<Longrightarrow> b \<in> S \<Longrightarrow> L a b \<or> L b a"
    and tr: "\<And>a b c. a \<in> S \<Longrightarrow> b \<in> S \<Longrightarrow> c \<in> S \<Longrightarrow> L a b \<Longrightarrow> L b c \<Longrightarrow> L a c"
    and eq: "\<And>a b. a \<in> S \<Longrightarrow> b \<in> S \<Longrightarrow> (cmp a b \<le> 0) = L a b"
  shows "x \<in> S \<Longrightarrow> set ys \<subseteq> S \<Longrightarrow> sorted_wrt L ys \<Longrightarrow> sorted_wrt L (insert_by cmp x ys)"
proof (induction ys)
  case Nil
  then show ?case by simp
next
  case (Cons y ys)
  show ?case
  proof (cases "cmp x y \<le> 0")
    case True
    then have xy: "L x y" using eq Cons.prems by simp
    have "\<forall>z\<in>set ys. L x z"
    proof
      fix z assume z: "z \<in> set ys"
      then have "L y z" using Cons.prems by simp
      then show "L x z" using tr [of x y z] xy z Cons.prems by auto
    qed
    then show ?thesis using True xy Cons.prems by simp
  next
    case False
    then have "\<not> L x y" using eq Cons.prems by simp
    then have yx: "L y x" using tot [of x y] Cons.prems by auto
    have "sorted_wrt L (insert_by cmp x ys)" using Cons by simp
    then show ?thesis using False yx Cons.prems by (simp add: set_insert_by)
  qed
qed

lemma sorted_wrt_sort_by:
  assumes tot: "\<And>a b. a \<in> S \<Longrightarrow> b \<in> S \<Longrightarrow> L a b \<or> L b a"
    and tr: "\<And>a b c. a \<in> S \<Longrightarrow> b \<in> S \<Longrightarrow> c \<in> S \<Longrightarrow> L a b \<Longrightarrow> L b c \<Longrightarrow> L a c"
    and eq: "\<And>a b. a \<in> S \<Longrightarrow> b \<in> S \<Longrightarrow> (cmp a b \<le> 0) = L a b"
  shows "set xs \<subseteq> S \<Longrightarrow> sorted_wrt L (sort_by cmp xs)"
proof (induction xs)
  case Nil
  then show ?case by simp
next
  case (Cons x xs)
  have c: "sorted_wrt L (sort_by cmp xs)" using Cons by simp
  have b: "set (sort_by cmp xs) \<subseteq> S" using Cons.prems by (simp add: set_sort_by)
  have a: "x \<in> S" using Cons.prems by simp
  have "sorted_wrt L (insert_by cmp x (sort_by cmp xs))"
    using tot tr eq a b c by (rule sorted_wrt_insert_by [where S = S and L = L])
  then show ?case by simp
qed


lemma defined_elems_map_Some: "defined_elems (map Some xs) = xs"
  by (induction xs) (auto simp: defined_elems_def)

lemma defined_elems_append: "defined_elems (xs @ ys) = defined_elems xs @ defined_elems ys"
  by (simp add: defined_elems_def)

lemma defined_elems_replicate_None: "defined_elems (replicate k None) = []"
  by (induction k) (auto simp: defined_elems_def)

lemma length_defined_elems: "length (defined_elems xs) \<le> length xs"
  by (induction xs) (auto simp: defined_elems_def split: option.splits)

lemma mset_defined_elems:
  "mset xs = image_mset Some (mset (defined_elems xs))
             + replicate_mset (length xs - length (defined_elems xs)) None"
proof (induction xs)
  case Nil
  then show ?case by (simp add: defined_elems_def)
next
  case (Cons x xs)
  have le: "length (defined_elems xs) \<le> length xs" by (rule length_defined_elems)
  show ?case
  proof (cases x)
    case None
    then have d: "defined_elems (x # xs) = defined_elems xs" by (simp add: defined_elems_def)
    have "Suc (length xs) - length (defined_elems xs) = Suc (length xs - length (defined_elems xs))"
      using le by simp
    then show ?thesis using Cons None d by simp
  next
    case (Some r)
    then have d: "defined_elems (x # xs) = r # defined_elems xs" by (simp add: defined_elems_def)
    show ?thesis using Cons Some d by simp
  qed
qed

lemma length_sort_by: "length (sort_by cmp xs) = length xs"
  using mset_sort_by [of cmp xs] by (metis size_mset)

lemma mset_array_sort: "mset (array_sort cmp xs) = mset xs"
proof -
  have "mset (array_sort cmp xs)
          = image_mset Some (mset (defined_elems xs))
            + replicate_mset (length xs - length (defined_elems xs)) None"
    by (simp add: array_sort_def mset_sort_by)
  then show ?thesis using mset_defined_elems [of xs] by simp
qed

lemma defined_elems_array_sort:
  "defined_elems (array_sort cmp xs) = sort_by cmp (defined_elems xs)"
  by (simp add: array_sort_def defined_elems_append defined_elems_map_Some
      defined_elems_replicate_None)

lemma compare_rows_le_Asc:
  assumes "(is_numeric (get_prop (h a) c) \<and> is_numeric (get_prop (h b) c)) \<or>
           (is_string (get_prop (h a) c) \<and> is_string (get_prop (h b) c))"
  shows "(compare_rows p h Asc c a b \<le> 0) = (\<not> js_lt p (get_prop (h b) c) (get_prop (h a) c))"
  using js_lt_asym [OF assms, of p] by (auto simp: compare_rows_def Let_def)

lemma compare_rows_le_Desc:
  "(compare_rows p h Desc c a b \<le> 0) = (\<not> js_lt p (get_prop (h a) c) (get_prop (h b) c))"
  by (auto simp: compare_rows_def Let_def)


lemma in_order_sort_by:
  assumes u: "(\<forall>r\<in>set xs. is_numeric (get_prop (h r) c)) \<or>
              (\<forall>r\<in>set xs. is_string (get_prop (h r) c))"
  shows "in_order p h dir c (sort_by (compare_rows p h dir c) xs)"
proof -
  have two: "\<And>a b. a \<in> set xs \<Longrightarrow> b \<in> set xs \<Longrightarrow>
      (is_numeric (get_prop (h a) c) \<and> is_numeric (get_prop (h b) c)) \<or>
      (is_string (get_prop (h a) c) \<and> is_string (get_prop (h b) c))"
    using u by blast
  have three: "\<And>a b d. a \<in> set xs \<Longrightarrow> b \<in> set xs \<Longrightarrow> d \<in> set xs \<Longrightarrow>
      (is_numeric (get_prop (h a) c) \<and> is_numeric (get_prop (h b) c)
         \<and> is_numeric (get_prop (h d) c)) \<or>
      (is_string (get_prop (h a) c) \<and> is_string (get_prop (h b) c)
         \<and> is_string (get_prop (h d) c))"
    using u by blast
  show ?thesis
  proof (cases dir)
    case Asc
    let ?L = "\<lambda>a b. \<not> js_lt p (get_prop (h b) c) (get_prop (h a) c)"
    have "sorted_wrt ?L (sort_by (compare_rows p h Asc c) xs)"
    proof (rule sorted_wrt_sort_by [where S = "set xs"])
      fix a b assume m: "a \<in> set xs" "b \<in> set xs"
      show "?L a b \<or> ?L b a" using js_lt_asym [OF two [OF m]] by blast
    next
      fix a b d assume m: "a \<in> set xs" "b \<in> set xs" "d \<in> set xs" and l: "?L a b" "?L b d"
      show "?L a d" using js_lt_negtrans [OF three [OF m]] l by blast
    next
      fix a b assume m: "a \<in> set xs" "b \<in> set xs"
      show "(compare_rows p h Asc c a b \<le> 0) = ?L a b"
        by (rule compare_rows_le_Asc [OF two [OF m]])
    qed simp
    then show ?thesis using Asc by (simp add: in_order_def)
  next
    case Desc
    let ?L = "\<lambda>a b. \<not> js_lt p (get_prop (h a) c) (get_prop (h b) c)"
    have "sorted_wrt ?L (sort_by (compare_rows p h Desc c) xs)"
    proof (rule sorted_wrt_sort_by [where S = "set xs"])
      fix a b assume m: "a \<in> set xs" "b \<in> set xs"
      show "?L a b \<or> ?L b a" using js_lt_asym [OF two [OF m]] by blast
    next
      fix a b d assume m: "a \<in> set xs" "b \<in> set xs" "d \<in> set xs" and l: "?L a b" "?L b d"
      show "?L a d" using js_lt_negtrans [OF three [OF m(3) m(2) m(1)]] l by blast
    next
      fix a b assume "a \<in> set xs" "b \<in> set xs"
      show "(compare_rows p h Desc c a b \<le> 0) = ?L a b"
        by (rule compare_rows_le_Desc)
    qed simp
    then show ?thesis using Desc by (simp add: in_order_def)
  qed
qed

lemma ex_loaded_uniform: "column_uniform ex_loaded ''age''"
  by code_simp

lemma ex_sorted_once:
  "filteredData (handleSort ex_str2num ''age'' ex_loaded) = [Some 1, Some 0, Some 2]"
  "defined_elems (filteredData (handleSort ex_str2num ''age'' ex_loaded)) = [1, 0, 2]"
  "sortConfig (handleSort ex_str2num ''age'' ex_loaded)
     = \<lparr> sort_key = Some ''age'', sort_direction = Asc \<rparr>"
  by code_simp+

text \<open>
  Claim C1, as stated, fails: a click on the column that is sorted descending does not
  leave it descending; it sorts ascending again.
\<close>

theorem third_click_ascends:
  "sortConfig ex_desc = \<lparr> sort_key = Some ''age'', sort_direction = Desc \<rparr> \<and>
   filteredData ex_desc = [Some 2, Some 0, Some 1] \<and>
   sortConfig (handleSort ex_str2num ''age'' ex_desc)
     = \<lparr> sort_key = Some ''age'', sort_direction = Asc \<rparr> \<and>
   filteredData (handleSort ex_str2num ''age'' ex_desc) = [Some 1, Some 0, Some 2]"
  by code_simp


text \<open>
  Claim C1, amended. A click on column \<open>c\<close> sorts descending when \<open>c\<close> is the sorted
  column and its direction is ascending, and ascending in every other case: for another
  column, and for \<open>c\<close> sorted descending, so repeated clicks alternate between the two
  directions and never return to the unsorted state. The projection keeps its elements,
  with its rows first. All this holds for every state and column. When, in addition, the
  column is uniform, the rows stand in the order of the new direction.
\<close>

theorem handleSort_click:
  "sortConfig (handleSort str2num c s)
     = \<lparr> sort_key = Some c,
         sort_direction = (if sort_key (sortConfig s) = Some c
                              \<and> sort_direction (sortConfig s) = Asc then Desc else Asc) \<rparr> \<and>
   mset (filteredData (handleSort str2num c s)) = mset (filteredData s) \<and>
   filteredData (handleSort str2num c s)
     = map Some (defined_elems (filteredData (handleSort str2num c s)))
       @ replicate (length (filteredData s) - length (defined_elems (filteredData s))) None \<and>
   (column_uniform s c \<longrightarrow>
      in_order str2num (heap s) (sort_direction (sortConfig (handleSort str2num c s))) c
        (defined_elems (filteredData (handleSort str2num c s))))"
proof -
  let ?dir = "if sort_key (sortConfig s) = Some c \<and> sort_direction (sortConfig s) = Asc
              then Desc else Asc"
  have cfg: "sortConfig (handleSort str2num c s) = \<lparr> sort_key = Some c, sort_direction = ?dir \<rparr>"
    by (simp add: handleSort_def Let_def)
  have fd: "filteredData (handleSort str2num c s)
              = array_sort (compare_rows str2num (heap s) ?dir c) (filteredData s)"
    by (simp add: handleSort_def Let_def)
  have ms: "mset (filteredData (handleSort str2num c s)) = mset (filteredData s)"
    by (simp only: fd mset_array_sort)
  have de: "defined_elems (filteredData (handleSort str2num c s))
              = sort_by (compare_rows str2num (heap s) ?dir c) (defined_elems (filteredData s))"
    by (simp only: fd defined_elems_array_sort)
  have shape: "filteredData (handleSort str2num c s)
           = map Some (defined_elems (filteredData (handleSort str2num c s)))
             @ replicate (length (filteredData s) - length (defined_elems (filteredData s))) None"
    unfolding de unfolding fd array_sort_def by (rule refl)
  have ord: "column_uniform s c \<longrightarrow>
      in_order str2num (heap s) (sort_direction (sortConfig (handleSort str2num c s))) c
        (defined_elems (filteredData (handleSort str2num c s)))"
  proof
    assume "column_uniform s c"
    then have "in_order str2num (heap s) ?dir c
          (sort_by (compare_rows str2num (heap s) ?dir c) (defined_elems (filteredData s)))"
      unfolding column_uniform_def by (rule in_order_sort_by)
    then show "in_order str2num (heap s) (sort_direction (sortConfig (handleSort str2num c s))) c
           (defined_elems (filteredData (handleSort str2num c s)))"
      by (simp only: de cfg sort_config.simps)
  qed
  show ?thesis using cfg ms shape ord by blast
qed

theorem handleSort_click_witness:
  "sortConfig (handleSort ex_str2num ''age'' ex_loaded)
     = \<lparr> sort_key = Some ''age'', sort_direction = Asc \<rparr> \<and>
   filteredData (handleSort ex_str2num ''age'' ex_loaded) = [Some 1, Some 0, Some 2] \<and>
   in_order ex_str2num (heap ex_loaded) Asc ''age'' [1, 0, 2]"
proof -
  have "in_order ex_str2num (heap ex_loaded)
          (sort_direction (sortConfig (handleSort ex_str2num ''age'' ex_loaded))) ''age''
          (defined_elems (filteredData (handleSort ex_str2num ''age'' ex_loaded)))"
    using handleSort_click [of ex_str2num "''age''" ex_loaded] ex_loaded_uniform by blast
  then have "in_order ex_str2num (heap ex_loaded) Asc ''age'' [1, 0, 2]"
    by (simp only: ex_sorted_once(2,3) sort_config.simps)
  then show ?thesis by (simp only: ex_sorted_once simp_thms)
qed

section \<open>Export\<close>

text \<open>Reading back what the serializer writes.\<close>

lemma set_escape_quotes: "set (escape_quotes x) = set x"
  by (induction x) (auto simp: escape_quotes_def)

lemma escape_quotes_plain: "quote_char \<notin> set x \<Longrightarrow> escape_quotes x = x"
  by (induction x) (auto simp: escape_quotes_def)

lemma scan_plain:
  "\<forall>c\<in>set x. c \<noteq> quote_char \<and> c \<noteq> delimiter \<and> c \<noteq> CHR 0x0D \<Longrightarrow>
     scan_csv False f r (x @ rest) = scan_csv False (rev x @ f) r rest"
proof (induction x arbitrary: f)
  case Nil
  then show ?case by simp
next
  case (Cons c cs)
  then have c: "c \<noteq> quote_char" "c \<noteq> delimiter" "c \<noteq> CHR 0x0D" by auto
  have "scan_csv False f r (c # (cs @ rest)) = scan_csv False (c # f) r (cs @ rest)"
    using c by (cases "cs @ rest") simp_all
  then show ?case using Cons by simp
qed

lemma scan_quoted:
  "rest = [] \<or> hd rest \<noteq> quote_char \<Longrightarrow>
     scan_csv True f r (escape_quotes x @ quote_char # rest) = scan_csv False (rev x @ f) r rest"
proof (induction x arbitrary: f)
  case Nil
  then show ?case by (cases rest) (auto simp: escape_quotes_def)
next
  case (Cons c cs)
  have e: "escape_quotes (c # cs)
             = (if c = quote_char then [quote_char, quote_char] else [c]) @ escape_quotes cs"
    by (simp add: escape_quotes_def)
  show ?case
  proof (cases "c = quote_char")
    case True
    then show ?thesis using Cons e by simp
  next
    case False
    then show ?thesis using Cons e by simp
  qed
qed

lemma scan_field:
  assumes "rest = [] \<or> hd rest = delimiter \<or> hd rest = CHR 0x0D"
  shows "scan_csv False [] r (quote_field x @ rest) = scan_csv False (rev x) r rest"
proof (cases "needs_quotes (escape_quotes x)")
  case True
  have nq: "rest = [] \<or> hd rest \<noteq> quote_char"
    using assms by (auto simp: quote_char_def delimiter_def)
  have "scan_csv False [] r (quote_field x @ rest)
          = scan_csv True [] r (escape_quotes x @ quote_char # rest)"
    using True by (simp add: quote_field_def Let_def)
  then show ?thesis using scan_quoted [OF nq, of "[]" r x] by simp
next
  case False
  then have n: "\<forall>c\<in>set (escape_quotes x). c \<noteq> quote_char \<and> c \<noteq> delimiter \<and> c \<noteq> CHR 0x0D"
    by (auto simp: needs_quotes_def list_ex_iff)
  then have "quote_char \<notin> set x" by (simp add: set_escape_quotes) blast
  then have p: "escape_quotes x = x" by (rule escape_quotes_plain)
  have "quote_field x = x" using False p by (simp add: quote_field_def Let_def)
  then show ?thesis using scan_plain [of x "[]" r rest] n p by simp
qed

lemma scan_record:
  assumes "rest = [] \<or> hd rest = CHR 0x0D"
  shows "scan_csv False [] r (join [delimiter] (map quote_field (x # xs)) @ rest)
           = scan_csv False (rev (last (x # xs))) (rev (butlast (x # xs)) @ r) rest"
proof (induction xs arbitrary: x r)
  case Nil
  show ?case using scan_field [of rest r x] assms by auto
next
  case (Cons y ys)
  have "scan_csv False [] r (join [delimiter] (map quote_field (x # y # ys)) @ rest)
          = scan_csv False [] r
              (quote_field x @ delimiter # (join [delimiter] (map quote_field (y # ys)) @ rest))"
    by simp
  also have "\<dots> = scan_csv False (rev x) r
              (delimiter # (join [delimiter] (map quote_field (y # ys)) @ rest))"
    by (rule scan_field) simp
  also have "\<dots> = scan_csv False [] (x # r) (join [delimiter] (map quote_field (y # ys)) @ rest)"
    by (simp add: quote_char_def delimiter_def)
  also have "\<dots> = scan_csv False (rev (last (y # ys))) (rev (butlast (y # ys)) @ x # r) rest"
    by (rule Cons.IH)
  finally show ?case by simp
qed

lemma scan_line_break:
  "scan_csv False f r (newline @ rest) = rev (rev f # r) # scan_csv False [] [] rest"
  by (simp add: newline_def quote_char_def delimiter_def)

lemma scan_records:
  assumes "\<forall>rc\<in>set (rc0 # rcs). rc \<noteq> []"
  shows "scan_csv False [] []
           (join newline (map (\<lambda>rc. join [delimiter] (map quote_field rc)) (rc0 # rcs)))
           = rc0 # rcs"
  using assms
proof (induction rcs arbitrary: rc0)
  case Nil
  then obtain x xs where rc0: "rc0 = x # xs" by (cases rc0) auto
  have "scan_csv False [] [] (join [delimiter] (map quote_field (x # xs)) @ [])
          = scan_csv False (rev (last (x # xs))) (rev (butlast (x # xs)) @ []) []"
    by (rule scan_record) simp
  then show ?case unfolding rc0 by (simp del: last.simps butlast.simps)
next
  case (Cons rc1 rcs)
  then obtain x xs where rc0: "rc0 = x # xs" by (cases rc0) auto
  let ?line = "\<lambda>rc. join [delimiter] (map quote_field rc)"
  let ?rest = "newline @ join newline (map ?line (rc1 # rcs))"
  have hd: "?rest = [] \<or> hd ?rest = CHR 0x0D" by (simp add: newline_def)
  have "scan_csv False [] [] (join newline (map ?line (rc0 # rc1 # rcs)))
          = scan_csv False [] [] (?line (x # xs) @ ?rest)"
    by (simp add: rc0)
  also have "\<dots> = scan_csv False (rev (last (x # xs))) (rev (butlast (x # xs)) @ []) ?rest"
    using hd by (rule scan_record)
  also have "\<dots> = (butlast (x # xs) @ [last (x # xs)])
                    # scan_csv False [] [] (join newline (map ?line (rc1 # rcs)))"
    by (simp only: scan_line_break) simp
  also have "\<dots> = (x # xs) # rc1 # rcs"
    using Cons.IH [of rc1] Cons.prems by (simp del: last.simps butlast.simps)
  finally show ?case by (simp add: rc0)
qed

lemma safe_quote_field: "safe v = quote_field (cell_text v)"
  by (cases v) (simp_all add: cell_text_def quote_field_def escape_quotes_def needs_quotes_def)

lemma row_line_cells:
  "flds \<noteq> [] \<Longrightarrow> row_line flds ob = join [delimiter] (map quote_field (row_cells flds ob))"
proof (cases "Object_keys ob = []")
  case True
  then have "ob = []" by (simp add: Object_keys_def)
  then have "row_line flds ob = concat (map (\<lambda>k. []) flds)"
    by (simp add: row_line_def Object_keys_def get_prop_def)
  then have "row_line flds ob = []" by simp
  then show ?thesis
    using True by (simp add: row_cells_def quote_field_def escape_quotes_def needs_quotes_def)
next
  case False
  then show ?thesis by (simp add: row_line_def row_cells_def safe_quote_field comp_def)
qed

lemma join_Cons: "ys \<noteq> [] \<Longrightarrow> join sep (x # ys) = x @ sep @ join sep ys"
  by (cases ys) simp_all

lemma serialize_lines:
  assumes "flds \<noteq> []" and "rows \<noteq> []"
  shows "serialize flds rows
           = join newline (map (\<lambda>rc. join [delimiter] (map quote_field rc))
               (flds # map (row_cells flds) rows))"
proof -
  have h: "map (\<lambda>k. safe (Str k)) flds = map quote_field flds"
    by simp
  have r: "map (row_line flds) rows
             = map (\<lambda>rc. join [delimiter] (map quote_field rc)) (map (row_cells flds) rows)"
    using assms(1) by (simp add: row_line_cells)
  show ?thesis
    using assms by (simp add: serialize_def h r join_Cons del: safe.simps)
qed

lemma papa_unparse_rows:
  "rows \<noteq> [] \<Longrightarrow> papa_unparse (map Some rows) = Some (serialize (Object_keys (hd rows)) rows)"
  by (auto simp: papa_unparse_def defined_elems_map_Some)

lemma ex_exports:
  "exportData ex_filtered
     = Some \<lparr> download_name = ''data-export.csv'', mime = ''text/csv'',
              body = ''name,age'' @ [CHR 0x0D, CHR 0x0A] @ ''Alice,30'' \<rparr>"
  "csv_records (''name,age'' @ [CHR 0x0D, CHR 0x0A] @ ''Alice,30'')
     = [[''name'', ''age''], [''Alice'', ''30'']]"
  "exportData ex_unmatched
     = Some \<lparr> download_name = ''data-export.csv'', mime = ''text/csv'', body = [] \<rparr>"
  "csv_records [] = []"
  "map key (columns ex_unmatched) = [''name'', ''age'']"
  "data ex_unmatched = [0, 1, 2]" "filteredData ex_unmatched = []"
  by code_simp+

text \<open>
  Claim C6, as stated, fails in its header part. After a search that matches no row the
  dataset still has its three rows and the schema its two keys, and the export button is
  shown; the exported text is empty, so it has no header row.
\<close>

theorem export_header_not_schema:
  "data ex_unmatched = [0, 1, 2] \<and> filteredData ex_unmatched = [] \<and>
   map key (columns ex_unmatched) = [''name'', ''age''] \<and>
   exportData ex_unmatched
     = Some \<lparr> download_name = ''data-export.csv'', mime = ''text/csv'', body = [] \<rparr> \<and>
   csv_records [] = []"
  by (simp only: ex_exports simp_thms)

text \<open>
  Claim C6, amended. \<^verbatim>\<open>exportData\<close> serializes the current projection, not the canonical
  dataset, to a download named \<^verbatim>\<open>data-export.csv\<close>. When the projection is empty the
  text is empty and has no header. When the projection has rows and its first row has a
  property, the text reads as a header row followed by one data row per visible row, in
  projection order: the header is the list of the keys of the first visible row (the
  schema's keys whenever that row carries exactly the schema's keys), and a data row
  holds the row's values under the header's keys. So a dataset of three rows filtered
  down to one visible row exports the header and one data row.
\<close>

theorem exportData_csv:
  "(filteredData s = [] \<longrightarrow>
      exportData s
        = Some \<lparr> download_name = ''data-export.csv'', mime = ''text/csv'', body = [] \<rparr>) \<and>
   (filteredData s = map Some (r0 # rs) \<and> Object_keys (heap s r0) \<noteq> [] \<longrightarrow>
      (\<exists>d. exportData s = Some d \<and> download_name d = ''data-export.csv'' \<and>
           mime d = ''text/csv'' \<and>
           csv_records (body d)
             = Object_keys (heap s r0)
               # map (\<lambda>r. row_cells (Object_keys (heap s r0)) (heap s r)) (r0 # rs) \<and>
           length (csv_records (body d)) = 1 + length (filteredData s) \<and>
           (Object_keys (heap s r0) = map key (columns s) \<longrightarrow>
              hd (csv_records (body d)) = map key (columns s))))"
proof
  show "filteredData s = [] \<longrightarrow>
      exportData s
        = Some \<lparr> download_name = ''data-export.csv'', mime = ''text/csv'', body = [] \<rparr>"
    by (simp add: exportData_def papa_unparse_def)
next
  show "filteredData s = map Some (r0 # rs) \<and> Object_keys (heap s r0) \<noteq> [] \<longrightarrow>
      (\<exists>d. exportData s = Some d \<and> download_name d = ''data-export.csv'' \<and>
           mime d = ''text/csv'' \<and>
           csv_records (body d)
             = Object_keys (heap s r0)
               # map (\<lambda>r. row_cells (Object_keys (heap s r0)) (heap s r)) (r0 # rs) \<and>
           length (csv_records (body d)) = 1 + length (filteredData s) \<and>
           (Object_keys (heap s r0) = map key (columns s) \<longrightarrow>
              hd (csv_records (body d)) = map key (columns s)))"
  proof
    assume a: "filteredData s = map Some (r0 # rs) \<and> Object_keys (heap s r0) \<noteq> []"
    let ?flds = "Object_keys (heap s r0)"
    let ?rows = "map (heap s) (r0 # rs)"
    let ?recs = "?flds # map (row_cells ?flds) ?rows"
    let ?text = "join newline (map (\<lambda>rc. join [delimiter] (map quote_field rc)) ?recs)"
    have inp: "map (map_option (heap s)) (filteredData s) = map Some ?rows"
      using a by simp
    have "?rows \<noteq> []" by simp
    then have "papa_unparse (map Some ?rows) = Some (serialize (Object_keys (hd ?rows)) ?rows)"
      by (rule papa_unparse_rows)
    then have un: "papa_unparse (map Some ?rows) = Some (serialize ?flds ?rows)"
      by simp
    have ser: "serialize ?flds ?rows = ?text"
      using a by (intro serialize_lines) simp_all
    have ex: "exportData s
                = Some \<lparr> download_name = ''data-export.csv'', mime = ''text/csv'', body = ?text \<rparr>"
      by (simp only: exportData_def inp un ser option.case)
    have ne: "\<forall>rc\<in>set ?recs. rc \<noteq> []"
      using a by (auto simp: row_cells_def)
    have "?text \<noteq> []"
      by (simp add: newline_def)
    then have "csv_records ?text = scan_csv False [] [] ?text"
      by (simp only: csv_records_def if_False)
    also have "\<dots> = ?recs"
      using ne by (rule scan_records)
    finally have rd: "csv_records ?text = ?recs" .
    have "?recs = ?flds # map (\<lambda>r. row_cells ?flds (heap s r)) (r0 # rs)"
      by (simp add: comp_def)
    then have rd': "csv_records ?text
                      = ?flds # map (\<lambda>r. row_cells ?flds (heap s r)) (r0 # rs)"
      using rd by simp
    have len: "length (csv_records ?text) = 1 + length (filteredData s)"
      using rd' a by simp
    have hk: "Object_keys (heap s r0) = map key (columns s) \<longrightarrow>
                hd (csv_records ?text) = map key (columns s)"
    proof
      assume e: "Object_keys (heap s r0) = map key (columns s)"
      have "hd (csv_records ?text) = Object_keys (heap s r0)"
        by (simp only: rd' list.sel)
      then show "hd (csv_records ?text) = map key (columns s)"
        using e by (rule trans)
    qed
    define d where
      "d = \<lparr> download_name = ''data-export.csv'', mime = ''text/csv'', body = ?text \<rparr>"
    have b: "body d = ?text" by (simp add: d_def)
    have n: "download_name d = ''data-export.csv''" "mime d = ''text/csv''"
      by (simp_all add: d_def)
    have e: "exportData s = Some d" by (simp only: ex d_def)
    have c1: "csv_records (body d)
             = Object_keys (heap s r0)
               # map (\<lambda>r. row_cells (Object_keys (heap s r0)) (heap s r)) (r0 # rs)"
      using rd' by (simp only: b)
    have c2: "length (csv_records (body d)) = 1 + length (filteredData s)"
      using len by (simp only: b)
    have c3: "Object_keys (heap s r0) = map key (columns s) \<longrightarrow>
              hd (csv_records (body d)) = map key (columns s)"
      using hk by (simp only: b)
    have "exportData s = Some d \<and> download_name d = ''data-export.csv'' \<and>
           mime d = ''text/csv'' \<and>
           csv_records (body d)
             = Object_keys (heap s r0)
               # map (\<lambda>r. row_cells (Object_keys (heap s r0)) (heap s r)) (r0 # rs) \<and>
           length (csv_records (body d)) = 1 + length (filteredData s) \<and>
           (Object_keys (heap s r0) = map key (columns s) \<longrightarrow>
              hd (csv_records (body d)) = map key (columns s))"
      by (intro conjI e n c1 c2 c3)
    then show "\<exists>d. exportData s = Some d \<and> download_name d = ''data-export.csv'' \<and>
           mime d = ''text/csv'' \<and>
           csv_records (body d)
             = Object_keys (heap s r0)
               # map (\<lambda>r. row_cells (Object_keys (heap s r0)) (heap s r)) (r0 # rs) \<and>
           length (csv_records (body d)) = 1 + length (filteredData s) \<and>
           (Object_keys (heap s r0) = map key (columns s) \<longrightarrow>
              hd (csv_records (body d)) = map key (columns s))"
      by (rule exI)
  qed
qed

theorem exportData_csv_witness:
  "length (data ex_filtered) = 3 \<and> filteredData ex_filtered = [Some 0] \<and>
   exportData ex_filtered
     = Some \<lparr> download_name = ''data-export.csv'', mime = ''text/csv'',
              body = ''name,age'' @ [CHR 0x0D, CHR 0x0A] @ ''Alice,30'' \<rparr> \<and>
   csv_records (''name,age'' @ [CHR 0x0D, CHR 0x0A] @ ''Alice,30'')
     = [[''name'', ''age''], row_cells [''name'', ''age''] alice] \<and>
   row_cells [''name'', ''age''] alice = [''Alice'', ''30'']"
proof -
  have h: "heap ex_filtered 0 = alice" by (simp add: ex_filtered_heap ex_loaded_heap)
  have k: "Object_keys alice = [''name'', ''age'']" by code_simp
  have kk: "Object_keys (heap ex_filtered 0) \<noteq> []" by (simp only: h k) simp
  have f: "filteredData ex_filtered = map Some (0 # [])"
    by (simp add: ex_filtered_filteredData)
  have c: "row_cells [''name'', ''age''] alice = [''Alice'', ''30'']" by code_simp
  obtain d where d: "exportData ex_filtered = Some d"
    "csv_records (body d)
       = Object_keys (heap ex_filtered 0)
         # map (\<lambda>r. row_cells (Object_keys (heap ex_filtered 0)) (heap ex_filtered r)) (0 # [])"
    using exportData_csv [of ex_filtered 0 "[]"] f kk by auto
  have b: "body d = ''name,age'' @ [CHR 0x0D, CHR 0x0A] @ ''Alice,30''"
    using d(1) by (auto simp: ex_exports(1))
  have "csv_records (''name,age'' @ [CHR 0x0D, CHR 0x0A] @ ''Alice,30'')
          = [[''name'', ''age''], row_cells [''name'', ''age''] alice]"
    using d(2) unfolding b by (simp add: h k)
  then show ?thesis
    using c by (simp add: ex_filtered_rest ex_filtered_filteredData ex_exports(1))
qed

section \<open>Upload failures\<close>

lemma ex_json_file_kind:
  "\<not> (file_type ex_json_file = ''text/csv'' \<or> endsWith (file_name ex_json_file) ''.csv'')"
  "file_type ex_json_file = ''application/json''"
  by code_simp+

lemma ex_file_kind: "file_type ex_file = ''text/csv''"
  by (simp add: ex_file_def)

text \<open>
  When the CSV parser invokes its error callback, or \<^verbatim>\<open>JSON.parse\<close> throws on the text
  of a JSON file, the error is written to the console under the label of its format and
  nothing else changes but the \<^verbatim>\<open>isUploading\<close> flag, which is cleared.
\<close>

lemma upload_failure_logged:
  assumes "(file_type f = ''text/csv'' \<or> endsWith (file_name f) ''.csv'') \<and> papa f = Failed e \<and>
             lbl = ''CSV parsing error:'' \<or>
           \<not> (file_type f = ''text/csv'' \<or> endsWith (file_name f) ''.csv'') \<and>
             file_type f = ''application/json'' \<and> json (file_text f) = Threw e \<and>
             lbl = ''JSON parsing error:''"
  shows "handleFileUpload papa json (Some f) s
           = s\<lparr>console := console s @ [(lbl, e)], isUploading := False\<rparr> \<and>
         data (handleFileUpload papa json (Some f) s) = data s \<and>
         columns (handleFileUpload papa json (Some f) s) = columns s \<and>
         filteredData (handleFileUpload papa json (Some f) s) = filteredData s"
  using assms by (auto simp: handleFileUpload_def Let_def)

lemma ex_upload_failures:
  "handleFileUpload ex_bad_csv ex_json (Some ex_file) init
     = init\<lparr>console := console init @ [(''CSV parsing error:'', ''NotReadableError'')],
            isUploading := False\<rparr>"
  "handleFileUpload ex_papa ex_json (Some ex_json_file) init
     = init\<lparr>console := console init @ [(''JSON parsing error:'', ''SyntaxError'')],
            isUploading := False\<rparr>"
proof -
  show "handleFileUpload ex_bad_csv ex_json (Some ex_file) init
     = init\<lparr>console := console init @ [(''CSV parsing error:'', ''NotReadableError'')],
            isUploading := False\<rparr>"
    using upload_failure_logged [of ex_file ex_bad_csv "''NotReadableError''"
        "''CSV parsing error:''" ex_json init]
    by (simp add: ex_file_kind ex_bad_csv_def)
  show "handleFileUpload ex_papa ex_json (Some ex_json_file) init
     = init\<lparr>console := console init @ [(''JSON parsing error:'', ''SyntaxError'')],
            isUploading := False\<rparr>"
    using upload_failure_logged [of ex_json_file ex_papa "''SyntaxError''"
        "''JSON parsing error:''" ex_json init] ex_json_file_kind
    by (simp add: ex_json_def)
qed

text \<open>
  The handler reads \<^verbatim>\<open>results.data\<close> only: the rows that the CSV parser hands to its
  \<^verbatim>\<open>complete\<close> callback are loaded whatever errors come with them, and nothing is
  written to the console on that path.
\<close>

lemma alloc_rows_length: "length (fst (alloc_rows rows h n)) = length rows"
  by (induction rows arbitrary: h n) (simp_all add: case_prod_beta)

lemma complete_loads_rows:
  assumes "file_type f = ''text/csv'' \<or> endsWith (file_name f) ''.csv''"
    and "papa f = Complete results" and "results_data results \<noteq> []"
  shows "length (data (handleFileUpload papa json (Some f) s)) = length (results_data results) \<and>
         filteredData (handleFileUpload papa json (Some f) s)
           = map Some (data (handleFileUpload papa json (Some f) s)) \<and>
         console (handleFileUpload papa json (Some f) s) = console s"
proof -
  let ?rows = "results_data results"
  obtain first rest where fr: "?rows = first # rest" using assms(3) by (cases ?rows) auto
  obtain rs h' n' where al: "alloc_rows ?rows (heap s) (nxt s) = (rs, h', n')"
    by (cases "alloc_rows ?rows (heap s) (nxt s)") auto
  then have "length rs = length ?rows" using alloc_rows_length [of ?rows "heap s" "nxt s"] by simp
  then show ?thesis using assms(1,2) al fr
    by (auto simp: handleFileUpload_def Let_def load_rows_def)
qed

text \<open>
  Claim C8 fails on the code for a malformed CSV text. The file \<^verbatim>\<open>short.csv\<close> has a
  record with too few fields; the parser reports the error in \<^verbatim>\<open>results.errors\<close> and
  calls \<^verbatim>\<open>complete\<close>. Starting from the empty state, the handler loads both rows, the
  short one included, derives the schema and shows the rows; the console stays empty.
\<close>

theorem upload_malformed_csv_shown:
  "ex_short_papa ex_short_file
     = Complete \<lparr> results_data = [alice, [(''name'', Str ''Bob'')]],
                  results_errors = [''TooFewFields''] \<rparr> \<and>
   data (handleFileUpload ex_short_papa ex_json (Some ex_short_file) init) = [0, 1] \<and>
   filteredData (handleFileUpload ex_short_papa ex_json (Some ex_short_file) init)
     = [Some 0, Some 1] \<and>
   map key (columns (handleFileUpload ex_short_papa ex_json (Some ex_short_file) init))
     = [''name'', ''age''] \<and>
   heap (handleFileUpload ex_short_papa ex_json (Some ex_short_file) init) 1
     = [(''name'', Str ''Bob'')] \<and>
   console (handleFileUpload ex_short_papa ex_json (Some ex_short_file) init) = [] \<and>
   isUploading (handleFileUpload ex_short_papa ex_json (Some ex_short_file) init) = False"
  by code_simp

section \<open>The store invariant\<close>

text \<open>
  The initial state satisfies \<open>allocated\<close> and every handler keeps it, so it holds in
  every state the component reaches.
\<close>

lemma alloc_rows_bounds:
  "alloc_rows rows h n = (rs, h', n') \<Longrightarrow> n \<le> n' \<and> (\<forall>r\<in>set rs. n \<le> r \<and> r < n')"
proof (induction rows arbitrary: h n rs h' n')
  case Nil
  then show ?case by simp
next
  case (Cons ob obs)
  obtain rs0 h0 n0 where a: "alloc_rows obs (h(n := ob)) (Suc n) = (rs0, h0, n0)"
    by (cases "alloc_rows obs (h(n := ob)) (Suc n)") auto
  then have b: "Suc n \<le> n0 \<and> (\<forall>r\<in>set rs0. Suc n \<le> r \<and> r < n0)"
    using Cons.IH by blast
  have "rs = n # rs0" "n' = n0" using Cons.prems a by auto
  then show ?case using b by auto
qed

lemma set_defined_elems_array_set:
  "set (defined_elems (array_set xs i v)) \<subseteq> insert v (set (defined_elems xs))"
proof
  fix r assume "r \<in> set (defined_elems (array_set xs i v))"
  then have m: "Some r \<in> set (array_set xs i v)" by (simp add: defined_elems_mem)
  have "Some r \<in> insert (Some v) (set xs)"
  proof (cases "i < length xs")
    case True
    then have "set (array_set xs i v) \<subseteq> insert (Some v) (set xs)"
      by (simp add: array_set_def set_update_subset_insert)
    then show ?thesis using m by blast
  next
    case False
    then show ?thesis using m by (auto simp: array_set_def)
  qed
  then show "r \<in> insert v (set (defined_elems xs))" by (auto simp: defined_elems_mem)
qed

lemma allocated_init: "allocated init"
  by (simp add: allocated_def init_def defined_elems_def)

lemma allocated_handleSearch: "allocated s \<Longrightarrow> allocated (handleSearch t s)"
  by (auto simp: allocated_def handleSearch_def Let_def defined_elems_map_Some)

lemma allocated_handleSort: "allocated s \<Longrightarrow> allocated (handleSort p c s)"
  by (simp add: allocated_def handleSort_def Let_def defined_elems_array_sort set_sort_by)

lemma allocated_handleCellEdit: "allocated s \<Longrightarrow> allocated (handleCellEdit r c V s)"
proof -
  assume a: "allocated s"
  let ?t = "array_at (filteredData s) r"
  have d: "set (data (handleCellEdit r c V s)) \<subseteq> insert (nxt s) (set (data s))"
  proof (cases "findIndex (\<lambda>row. Some row = ?t) (data s)")
    case None
    then show ?thesis by (auto simp: handleCellEdit_def Let_def)
  next
    case (Some i)
    then have "data (handleCellEdit r c V s) = (data s)[i := nxt s]"
      by (simp add: handleCellEdit_def Let_def)
    then show ?thesis by (simp add: set_update_subset_insert)
  qed
  have f: "set (defined_elems (filteredData (handleCellEdit r c V s)))
             \<subseteq> insert (Suc (nxt s)) (set (defined_elems (filteredData s)))"
    using set_defined_elems_array_set [of "filteredData s" r "Suc (nxt s)"]
    by (simp add: handleCellEdit_def Let_def)
  have n: "nxt (handleCellEdit r c V s) = Suc (Suc (nxt s))"
    by (simp add: handleCellEdit_def Let_def)
  have "\<forall>x\<in>set (data (handleCellEdit r c V s)). x < Suc (Suc (nxt s))"
    using a d by (fastforce simp: allocated_def)
  moreover have "\<forall>x\<in>set (defined_elems (filteredData (handleCellEdit r c V s))).
                   x < Suc (Suc (nxt s))"
    using a f by (fastforce simp: allocated_def)
  ultimately show ?thesis by (simp add: allocated_def n)
qed

lemma allocated_addNewRow: "allocated s \<Longrightarrow> allocated (addNewRow s)"
  by (auto simp: allocated_def addNewRow_def Let_def defined_elems_mem less_Suc_eq)

lemma allocated_deleteSelectedRows: "allocated s \<Longrightarrow> allocated (deleteSelectedRows s)"
  by (auto simp: allocated_def deleteSelectedRows_def Let_def defined_elems_map_Some)

lemma allocated_load_rows: "allocated s \<Longrightarrow> allocated (load_rows f rows s)"
proof (cases rows)
  case Nil
  then show "allocated s \<Longrightarrow> ?thesis" by (simp add: load_rows_def)
next
  case (Cons first rest)
  obtain rs h' n' where a: "alloc_rows rows (heap s) (nxt s) = (rs, h', n')"
    by (cases "alloc_rows rows (heap s) (nxt s)") auto
  have "\<forall>r\<in>set rs. r < n'" using alloc_rows_bounds [OF a] by blast
  then show "allocated s \<Longrightarrow> ?thesis" using a Cons
    by (simp add: load_rows_def Let_def allocated_def defined_elems_map_Some)
qed

lemma allocated_handleFileUpload:
  "allocated s \<Longrightarrow> allocated (handleFileUpload papa json fo s)"
proof -
  assume a: "allocated s"
  have up: "\<And>b. allocated (s\<lparr>isUploading := b\<rparr>)" using a by (simp add: allocated_def)
  have fl: "\<And>t b. allocated t \<Longrightarrow> allocated (t\<lparr>isUploading := b\<rparr>)"
    by (simp add: allocated_def)
  have lg: "\<And>t l b. allocated t \<Longrightarrow> allocated (t\<lparr>console := l, isUploading := b\<rparr>)"
    by (simp add: allocated_def)
  show ?thesis
    using a up fl lg allocated_load_rows
    by (auto simp: handleFileUpload_def Let_def split: option.splits csv_outcome.splits
        json_outcome.splits json_doc.splits)
qed

lemma allocated_selection_and_cursor:
  "allocated s \<Longrightarrow> allocated (toggleRowSelection i s)"
  "allocated s \<Longrightarrow> allocated (cell_click r c s)"
  "allocated s \<Longrightarrow> allocated (resetDataGrid s)"
  by (simp_all add: allocated_def toggleRowSelection_def cell_click_def resetDataGrid_def
      defined_elems_def)

lemma allocated_cell_input: "allocated s \<Longrightarrow> allocated (cell_input r c ev s)"
  by (cases ev) (simp_all add: allocated_handleCellEdit, simp_all add: allocated_def)

end
